theory Spec2Isabelle
  imports Complex_Main "HOL-Library.Multiset"
begin

section \<open>The host page: numbers, elements, the document tree\<close>

text \<open>
  The content script (the extension's version and the two userscript versions share the
  code modelled here) works on host objects of the browser. They are modelled as follows.

  \<^item> A JavaScript number that the browser keeps finite (a media element's currentTime,
    volume and playbackRate, the sides of a layout rectangle, the window's inner size) is
    a \<open>real\<close>; rounding of doubles is not modelled. A media element's duration can also
    be NaN (no media loaded) or +Infinity (an unbounded stream), so it is a \<open>number\<close>.
  \<^item> A DOM node is named by a natural number (its object identity). What the script
    reads from an element is a record in an object store; the tree of the document's body
    is an algebraic tree of node names.
\<close>

datatype number = NaN | PosInf | Num real

fun isNaN :: "number \<Rightarrow> bool" where
  "isNaN NaN = True"
| "isNaN PosInf = False"
| "isNaN (Num x) = False"

text \<open>Truthiness of a number, as \<open>||\<close> tests it: NaN and 0 are falsy.\<close>

fun truthy :: "number \<Rightarrow> bool" where
  "truthy NaN = False"
| "truthy PosInf = True"
| "truthy (Num x) = (x \<noteq> 0)"

text \<open>\<open>Math.min(d, x)\<close> for a finite \<open>x\<close>: NaN is contagious, +Infinity is neutral.\<close>

fun Math_min :: "number \<Rightarrow> real \<Rightarrow> number" where
  "Math_min NaN x = NaN"
| "Math_min PosInf x = Num x"
| "Math_min (Num d) x = Num (min d x)"

record rect =
  r_top :: real
  r_left :: real
  r_bottom :: real
  r_right :: real
  r_width :: real
  r_height :: real

text \<open>The playback attributes of a video element that the script reads and writes.\<close>

record media =
  currentTime :: real
  duration :: number
  paused :: bool
  volume :: real
  playbackRate :: real

text \<open>
  The scrub control, an \<open>input type=range\<close>. \<open>s_max\<close> is \<open>None\<close> until the script
  assigns it; \<open>s_fill\<close> is the percentage written into the linear-gradient of
  \<open>style.background\<close>, \<open>None\<close> until the first rendering.
\<close>

record slider =
  s_min :: real
  s_step :: real
  s_val :: real
  s_max :: "number option"
  s_fill :: "real option"

text \<open>
  An element as the script sees it. \<open>html_video\<close> is \<open>instanceof HTMLVideoElement\<close>;
  \<open>css_position\<close> is \<open>getComputedStyle(el).position\<close>; \<open>offsetParent\<close> and
  \<open>bounding\<close> are the layout engine's answers; \<open>data_forVideo\<close> and
  \<open>data_customId\<close> are the two dataset entries the script reads (\<open>None\<close> is
  \<open>undefined\<close>), and \<open>has_dataset\<close> says whether the element has a dataset at all.
  \<open>add_listener_raises\<close> marks a malformed element whose \<open>addEventListener\<close> raises.
\<close>

record element =
  tagName :: string
  html_video :: bool
  classList :: "string list"
  css_position :: string
  offsetParent :: "nat option"
  has_dataset :: bool
  data_forVideo :: "string option"
  data_customId :: "string option"
  bounding :: rect
  video :: media
  input_range :: slider
  add_listener_raises :: bool

datatype tree = Node nat "tree list"

fun root_id :: "tree \<Rightarrow> nat" where
  "root_id (Node n cs) = n"

fun kids :: "tree \<Rightarrow> tree list" where
  "kids (Node n cs) = cs"

text \<open>The nodes of a subtree in document order (preorder), the root first.\<close>

fun nodes :: "tree \<Rightarrow> nat list" where
  "nodes (Node n cs) = n # concat (map nodes cs)"

fun first_some :: "'a option list \<Rightarrow> 'a option" where
  "first_some [] = None"
| "first_some (None # xs) = first_some xs"
| "first_some (Some y # xs) = Some y"

text \<open>The subtree rooted at a node, if the node is in the tree.\<close>

fun subtree :: "nat \<Rightarrow> tree \<Rightarrow> tree option" where
  "subtree p (Node n cs) =
     (if n = p then Some (Node n cs) else first_some (map (subtree p) cs))"

text \<open>
  The chain of ancestors of a node, its parent first and the tree's root last; \<open>None\<close>
  when the node is not in the tree.
\<close>

fun ancestors :: "nat \<Rightarrow> tree \<Rightarrow> nat list option" where
  "ancestors v (Node n cs) =
     (if n = v then Some []
      else (case first_some (map (ancestors v) cs) of
              None \<Rightarrow> None
            | Some up \<Rightarrow> Some (up @ [n])))"

definition parentElement :: "nat \<Rightarrow> tree \<Rightarrow> nat option" where
  "parentElement v t =
     (case ancestors v t of None \<Rightarrow> None | Some [] \<Rightarrow> None | Some (p # up) \<Rightarrow> Some p)"

text \<open>\<open>p.appendChild(c)\<close> for a node \<open>c\<close> that is not in the tree yet.\<close>

fun appendChild :: "nat \<Rightarrow> tree \<Rightarrow> tree \<Rightarrow> tree" where
  "appendChild p c (Node n cs) =
     (if n = p then Node n (cs @ [c]) else Node n (map (appendChild p c) cs))"

text \<open>\<open>p.removeChild(c)\<close>.\<close>

fun removeChild :: "nat \<Rightarrow> nat \<Rightarrow> tree \<Rightarrow> tree" where
  "removeChild p c (Node n cs) =
     (if n = p then Node n (filter (\<lambda>k. root_id k \<noteq> c) cs)
      else Node n (map (removeChild p c) cs))"

text \<open>The descendants of a subtree's root in document order.\<close>

definition descendants :: "tree \<Rightarrow> nat list" where
  "descendants t = concat (map nodes (kids t))"

section \<open>The tracker's state\<close>

text \<open>
  A listener is (target, event type, callback, capture flag). The callbacks are the
  functions \<open>createControls\<close> declares; each call makes new function objects, told
  apart here by the container the call created.
\<close>

datatype handler =
    StopProp nat
  | OnTimeUpdate nat
  | OnLoadedMetadata nat
  | OnSeeked nat
  | OnSliderInput nat

type_synonym listener = "nat \<times> string \<times> handler \<times> bool"

text \<open>
  The teardown action is the closure \<open>cleanup\<close>; what it captured is the video, the
  slider and the container.
\<close>

record cleanup =
  cl_video :: nat
  cl_slider :: nat
  cl_container :: nat

text \<open>
  \<open>body\<close> is the subtree of \<open>document.body\<close> (its root is the body element);
  \<open>elems\<close> is the object store; \<open>enhanced\<close> is the WeakSet and \<open>cleanupMap\<close> the
  WeakMap of the script; \<open>listeners\<close> are the registered event listeners;
  \<open>next_id\<close> names the next node \<open>document.createElement\<close> returns.
\<close>

record state =
  body :: tree
  elems :: "nat \<Rightarrow> element"
  activeElement :: "nat option"
  innerWidth :: real
  innerHeight :: real
  enhanced :: "nat set"
  cleanupMap :: "nat \<rightharpoonup> cleanup"
  listeners :: "listener list"
  next_id :: nat

text \<open>
  A call either returns a result or raises; both leave a state behind, since the
  effects made before a throw stay.
\<close>

datatype 'a outcome = Returned 'a state | Thrown state

fun state_of :: "'a outcome \<Rightarrow> state" where
  "state_of (Returned x s) = s"
| "state_of (Thrown s) = s"

definition querySelectorAll_video :: "state \<Rightarrow> tree \<Rightarrow> nat list" where
  "querySelectorAll_video s t =
     filter (\<lambda>n. tagName (elems s n) = ''VIDEO'') (descendants t)"

definition querySelector_class :: "state \<Rightarrow> string \<Rightarrow> tree \<Rightarrow> nat option" where
  "querySelector_class s c t =
     List.find (\<lambda>n. c \<in> set (classList (elems s n))) (descendants t)"

definition addEventListener :: "listener \<Rightarrow> state \<Rightarrow> state" where
  "addEventListener l s =
     (if l \<in> set (listeners s) then s else s\<lparr>listeners := listeners s @ [l]\<rparr>)"

definition removeEventListener :: "listener \<Rightarrow> state \<Rightarrow> state" where
  "removeEventListener l s = s\<lparr>listeners := removeAll l (listeners s)\<rparr>"

section \<open>Geometry Selector\<close>

definition isInViewport :: "state \<Rightarrow> rect \<Rightarrow> bool" where
  "isInViewport s r =
     (r_top r \<ge> - r_height r \<and>
      r_left r \<ge> - r_width r \<and>
      r_bottom r \<le> innerHeight s + r_height r \<and>
      r_right r \<le> innerWidth s + r_width r)"

text \<open>The \<open>for ... of\<close> loop of \<open>getActiveVideo\<close>.\<close>

fun find_in_viewport :: "state \<Rightarrow> nat list \<Rightarrow> nat option" where
  "find_in_viewport s [] = None"
| "find_in_viewport s (v # vs) =
     (let r = bounding (elems s v) in
      if isInViewport s r \<and> r_width r > 100 \<and> r_height r > 100 then Some v
      else find_in_viewport s vs)"

text \<open>The callback of \<open>videos.reduce\<close>.\<close>

definition larger :: "state \<Rightarrow> nat \<Rightarrow> nat \<Rightarrow> nat" where
  "larger s largest v =
     (let r = bounding (elems s v); largestRect = bounding (elems s largest) in
      if r_width r * r_height r > r_width largestRect * r_height largestRect then v
      else largest)"

definition getActiveVideo :: "state \<Rightarrow> nat option" where
  "getActiveVideo s =
     (let videos = querySelectorAll_video s (body s) in
      if length videos = 0 then None
      else if length videos = 1 then Some (hd videos)
      else (case find_in_viewport s videos of
              Some v \<Rightarrow> Some v
            | None \<Rightarrow> Some (foldl (larger s) (hd videos) videos)))"

text \<open>
  The two notions the selection is stated with: a video qualifies when its box lies
  within the viewport grown by the box's own size on every side and is more than 100
  wide and high; its area is width times height.
\<close>

definition qualifies :: "state \<Rightarrow> nat \<Rightarrow> bool" where
  "qualifies s v =
     (isInViewport s (bounding (elems s v)) \<and>
      r_width (bounding (elems s v)) > 100 \<and> r_height (bounding (elems s v)) > 100)"

definition area :: "state \<Rightarrow> nat \<Rightarrow> real" where
  "area s v = r_width (bounding (elems s v)) * r_height (bounding (elems s v))"

section \<open>Attachment-Point Resolver\<close>

text \<open>
  The \<open>while\<close> loop of \<open>findAttachmentParent\<close>, run over the chain of ancestors:
  it stops at the body.
\<close>

fun positioned_ancestor :: "state \<Rightarrow> nat list \<Rightarrow> nat option" where
  "positioned_ancestor s [] = None"
| "positioned_ancestor s (el # up) =
     (if el = root_id (body s) then None
      else if css_position (elems s el) \<noteq> [] \<and> css_position (elems s el) \<noteq> ''static''
      then Some el
      else positioned_ancestor s up)"

text \<open>
  The callers pass an element, never null, so the guard \<open>!video\<close> has no branch here.
\<close>

definition findAttachmentParent :: "nat \<Rightarrow> state \<Rightarrow> nat option" where
  "findAttachmentParent v s =
     (case offsetParent (elems s v) of
        Some p \<Rightarrow> Some p
      | None \<Rightarrow>
          (case positioned_ancestor s
                  (case ancestors v (body s) of None \<Rightarrow> [] | Some up \<Rightarrow> up) of
             Some el \<Rightarrow> Some el
           | None \<Rightarrow>
               (case parentElement v (body s) of
                  Some p \<Rightarrow> Some p
                | None \<Rightarrow> Some (root_id (body s)))))"

section \<open>Progress Renderer\<close>

definition set_range :: "nat \<Rightarrow> slider \<Rightarrow> state \<Rightarrow> state" where
  "set_range sl d s = s\<lparr>elems := (elems s)(sl := (elems s sl)\<lparr>input_range := d\<rparr>)\<rparr>"

text \<open>
  What \<open>updateProgress\<close> does to the slider, given the video's currentTime and duration
  and whether the slider is \<open>document.activeElement\<close>. The branch
  \<open>!isNaN(dur) && dur > 0\<close> renders \<open>cur / dur * 100\<close> clamped; the quotient \<open>q\<close> is
  \<open>cur / d\<close> for a finite positive duration and 0 for +Infinity.
\<close>

definition render_progress :: "real \<Rightarrow> number \<Rightarrow> real \<Rightarrow> bool \<Rightarrow> slider \<Rightarrow> slider" where
  "render_progress cur dur q focused d =
     (let pct = max 0 (min 100 (q * 100));
          d1 = d\<lparr>s_fill := Some pct\<rparr>;
          d2 = (if \<not> focused then d1\<lparr>s_val := cur\<rparr> else d1)
      in d2\<lparr>s_max := Some dur\<rparr>)"

definition render_fallback :: "slider \<Rightarrow> slider" where
  "render_fallback d = d\<lparr>s_fill := Some 0\<rparr>"

definition rendered :: "media \<Rightarrow> bool \<Rightarrow> slider \<Rightarrow> slider" where
  "rendered m focused d =
     (let dur = duration m; cur = currentTime m in
      case dur of
        NaN \<Rightarrow> render_fallback d
      | PosInf \<Rightarrow> render_progress cur dur 0 focused d
      | Num x \<Rightarrow> if x > 0 then render_progress cur dur (cur / x) focused d
                 else render_fallback d)"

definition updateProgress :: "nat \<Rightarrow> nat \<Rightarrow> state \<Rightarrow> state" where
  "updateProgress v sl s =
     set_range sl
       (rendered (video (elems s v)) (activeElement s = Some sl) (input_range (elems s sl))) s"

section \<open>Enhancement Lifecycle Manager\<close>

text \<open>
  \<open>existing.dataset && existing.dataset.forVideo === (video.dataset && video.dataset.customId)\<close>.
  An entry that was never set reads as \<open>undefined\<close>, and \<open>===\<close> holds between two
  \<open>undefined\<close>.
\<close>

definition linked :: "state \<Rightarrow> nat \<Rightarrow> nat \<Rightarrow> bool" where
  "linked s existing v =
     (has_dataset (elems s existing) \<and>
      data_forVideo (elems s existing) =
        (if has_dataset (elems s v) then data_customId (elems s v) else None))"

definition zero_rect :: rect where
  "zero_rect = \<lparr>r_top = 0, r_left = 0, r_bottom = 0, r_right = 0, r_width = 0, r_height = 0\<rparr>"

definition no_media :: media where
  "no_media = \<lparr>currentTime = 0, duration = NaN, paused = True, volume = 1, playbackRate = 1\<rparr>"

definition no_slider :: slider where
  "no_slider = \<lparr>s_min = 0, s_step = 1, s_val = 0, s_max = None, s_fill = None\<rparr>"

text \<open>\<open>document.createElement(tag)\<close>: an element with no class and no data attribute.\<close>

definition createElement :: "string \<Rightarrow> element" where
  "createElement tag =
     \<lparr>tagName = tag, html_video = False, classList = [], css_position = ''static'',
      offsetParent = None, has_dataset = True, data_forVideo = None, data_customId = None,
      bounding = zero_rect, video = no_media, input_range = no_slider,
      add_listener_raises = False\<rparr>"

text \<open>The container, positioned absolutely by the script's style sheet.\<close>

definition container_element :: element where
  "container_element =
     (createElement ''DIV'')\<lparr>classList := [''custom-seek-container''],
                             css_position := ''absolute''\<rparr>"

definition slider_element :: element where
  "slider_element =
     (createElement ''INPUT'')\<lparr>classList := [''custom-slider''],
        input_range := \<lparr>s_min = 0, s_step = 0.01, s_val = 0, s_max = None, s_fill = None\<rparr>\<rparr>"

text \<open>
  The part of \<open>createControls\<close> after its guards. The container is node \<open>next_id s\<close>,
  the slider the node after it. \<open>video.addEventListener\<close> is the first method the
  script calls on the video; on a malformed video it raises, and what was done before
  stays: two elements were created and the container's listeners registered, nothing
  was inserted into the document.
\<close>

definition build_controls :: "nat \<Rightarrow> nat \<Rightarrow> state \<Rightarrow> unit outcome" where
  "build_controls v parent s =
     (let container = next_id s;
          sl = Suc (next_id s);
          s1 = s\<lparr>next_id := next_id s + 2,
                 elems := (elems s)(container := container_element, sl := slider_element)\<rparr>;
          s2 = addEventListener (container, ''click'', StopProp container, True) s1;
          s3 = addEventListener (container, ''mousedown'', StopProp container, True) s2;
          s4 = addEventListener (sl, ''click'', StopProp container, True) s3
      in if add_listener_raises (elems s4 v) then Thrown s4
         else
           (let s5 = addEventListener (v, ''timeupdate'', OnTimeUpdate container, False) s4;
                s6 = addEventListener (v, ''loadedmetadata'', OnLoadedMetadata container, False) s5;
                s7 = addEventListener (v, ''seeked'', OnSeeked container, False) s6;
                s8 = addEventListener (sl, ''input'', OnSliderInput container, False) s7;
                s9 = s8\<lparr>body := appendChild parent (Node container []) (body s8)\<rparr>;
                s10 = s9\<lparr>body := appendChild container (Node sl []) (body s9)\<rparr>;
                dur = duration (video (elems s10 v));
                s11 = (if \<not> isNaN dur
                       then set_range sl ((input_range (elems s10 sl))\<lparr>s_max := Some dur\<rparr>) s10
                       else s10);
                s12 = updateProgress v sl s11;
                s13 = s12\<lparr>enhanced := insert v (enhanced s12)\<rparr>;
                s14 = s13\<lparr>cleanupMap := (cleanupMap s13)
                         (v \<mapsto> \<lparr>cl_video = v, cl_slider = sl, cl_container = container\<rparr>)\<rparr>
            in Returned () s14))"

definition createControls :: "nat \<Rightarrow> state \<Rightarrow> unit outcome" where
  "createControls v s =
     (if \<not> html_video (elems s v) then Returned () s
      else if v \<in> enhanced s then Returned () s
      else
        (case findAttachmentParent v s of
           None \<Rightarrow> Returned () s
         | Some parent \<Rightarrow>
             (let existing =
                    (case subtree parent (body s) of
                       None \<Rightarrow> None
                     | Some t \<Rightarrow> querySelector_class s ''custom-seek-container'' t)
              in if (case existing of None \<Rightarrow> False | Some e \<Rightarrow> linked s e v)
                 then Returned () (s\<lparr>enhanced := insert v (enhanced s)\<rparr>)
                 else build_controls v parent s)))"

text \<open>
  The closure \<open>cleanup\<close>. None of its calls raises in this model, so its
  \<open>try\<close> blocks have no second branch.
\<close>

definition run_cleanup :: "cleanup \<Rightarrow> state \<Rightarrow> state" where
  "run_cleanup c s =
     (let v = cl_video c; sl = cl_slider c; container = cl_container c;
          s1 = removeEventListener (v, ''timeupdate'', OnTimeUpdate container, False) s;
          s2 = removeEventListener (v, ''loadedmetadata'', OnLoadedMetadata container, False) s1;
          s3 = removeEventListener (v, ''seeked'', OnSeeked container, False) s2;
          s4 = removeEventListener (sl, ''input'', OnSliderInput container, False) s3;
          s5 = removeEventListener (container, ''click'', StopProp container, True) s4;
          s6 = removeEventListener (container, ''mousedown'', StopProp container, True) s5;
          s7 = removeEventListener (sl, ''click'', StopProp container, True) s6;
          s8 = (case parentElement container (body s7) of
                  None \<Rightarrow> s7
                | Some p \<Rightarrow> s7\<lparr>body := removeChild p container (body s7)\<rparr>);
          s9 = s8\<lparr>enhanced := enhanced s8 - {v}\<rparr>
      in s9\<lparr>cleanupMap := (cleanupMap s9)(v := None)\<rparr>)"

definition cleanupVideo :: "nat \<Rightarrow> state \<Rightarrow> state" where
  "cleanupVideo v s = (case cleanupMap s v of None \<Rightarrow> s | Some fn \<Rightarrow> run_cleanup fn s)"

section \<open>Initial pass and Mutation Watcher\<close>

text \<open>
  The initial pass: \<open>forEach\<close> over the videos of the document, each call of
  \<open>createControls\<close> in a \<open>try\<close> of its own.
\<close>

fun forEach_try_createControls :: "nat list \<Rightarrow> state \<Rightarrow> state" where
  "forEach_try_createControls [] s = s"
| "forEach_try_createControls (v # vs) s =
     forEach_try_createControls vs (state_of (createControls v s))"

definition initial_pass :: "state \<Rightarrow> state" where
  "initial_pass s = forEach_try_createControls (querySelectorAll_video s (body s)) s"

text \<open>
  \<open>vids.forEach((v) => createControls(v))\<close> with no \<open>try\<close> inside: a throw ends the
  loop.
\<close>

fun forEach_createControls :: "nat list \<Rightarrow> state \<Rightarrow> unit outcome" where
  "forEach_createControls [] s = Returned () s"
| "forEach_createControls (v # vs) s =
     (case createControls v s of
        Thrown s' \<Rightarrow> Thrown s'
      | Returned u s' \<Rightarrow> forEach_createControls vs s')"

text \<open>
  A node of a mutation record. For an element the record's node is given with its
  subtree as it stands when the callback runs; \<open>nodeType\<close> is 1 for an element only.
\<close>

datatype mnode = TextNode | CommentNode | ElementNode tree

record mutation =
  addedNodes :: "mnode list"
  removedNodes :: "mnode list"

text \<open>The callback of \<open>addedNodes.forEach\<close>: one \<open>try\<close> around the whole node.\<close>

definition added_node :: "mnode \<Rightarrow> state \<Rightarrow> state" where
  "added_node node s =
     (case node of
        ElementNode t \<Rightarrow>
          state_of
            (if tagName (elems s (root_id t)) = ''VIDEO'' then createControls (root_id t) s
             else forEach_createControls (querySelectorAll_video s t) s)
      | _ \<Rightarrow> s)"

definition removed_node :: "mnode \<Rightarrow> state \<Rightarrow> state" where
  "removed_node node s =
     (case node of
        ElementNode t \<Rightarrow>
          (if tagName (elems s (root_id t)) = ''VIDEO'' then cleanupVideo (root_id t) s
           else fold cleanupVideo (querySelectorAll_video s t) s)
      | _ \<Rightarrow> s)"

fun observer :: "mutation list \<Rightarrow> state \<Rightarrow> state" where
  "observer [] s = s"
| "observer (m # ms) s =
     observer ms (fold removed_node (removedNodes m) (fold added_node (addedNodes m) s))"

section \<open>Command Dispatcher\<close>

definition PLAYBACK_SPEEDS :: "real list" where
  "PLAYBACK_SPEEDS = [0.25, 0.5, 0.75, 1, 1.25, 1.5, 1.75, 2]"

text \<open>\<open>Array.prototype.indexOf\<close>: the first index holding the element, or -1.\<close>

fun indexOf :: "real list \<Rightarrow> real \<Rightarrow> int" where
  "indexOf [] x = - 1"
| "indexOf (y # ys) x =
     (if y = x then 0 else (let i = indexOf ys x in if i < 0 then - 1 else i + 1))"

text \<open>Reading an array at an index: \<open>None\<close> is \<open>undefined\<close>, outside the array.\<close>

definition at_index :: "real list \<Rightarrow> int \<Rightarrow> real option" where
  "at_index xs i = (if 0 \<le> i \<and> i < int (length xs) then Some (xs ! nat i) else None)"

definition set_media :: "nat \<Rightarrow> media \<Rightarrow> state \<Rightarrow> state" where
  "set_media v m s = s\<lparr>elems := (elems s)(v := (elems s v)\<lparr>video := m\<rparr>)\<rparr>"

text \<open>
  Assigning to \<open>currentTime\<close> or \<open>playbackRate\<close> stores the value the script
  computed; the seek the browser then performs, with its own clamping, is not modelled.
  The attributes are of WebIDL type double, so assigning a value that is not a finite
  number (NaN, Infinity, \<open>undefined\<close>) raises a TypeError.

  Assigning to \<open>volume\<close> a value outside [0, 1] raises an IndexSizeError and leaves
  the volume as it is.
\<close>

definition assign_volume :: "nat \<Rightarrow> real \<Rightarrow> state \<Rightarrow> unit outcome" where
  "assign_volume v x s =
     (if 0 \<le> x \<and> x \<le> 1
      then Returned () (set_media v ((video (elems s v))\<lparr>volume := x\<rparr>) s)
      else Thrown s)"

definition seekBackward :: "real \<Rightarrow> state \<Rightarrow> bool outcome" where
  "seekBackward seconds s =
     (case getActiveVideo s of
        None \<Rightarrow> Returned False s
      | Some v \<Rightarrow>
          (let m = video (elems s v) in
           Returned True (set_media v (m\<lparr>currentTime := max 0 (currentTime m - seconds)\<rparr>) s)))"

definition seekForward :: "real \<Rightarrow> state \<Rightarrow> bool outcome" where
  "seekForward seconds s =
     (case getActiveVideo s of
        None \<Rightarrow> Returned False s
      | Some v \<Rightarrow>
          (let m = video (elems s v) in
           case Math_min (if truthy (duration m) then duration m
                          else Num (currentTime m + seconds))
                         (currentTime m + seconds) of
             Num t \<Rightarrow> Returned True (set_media v (m\<lparr>currentTime := t\<rparr>) s)
           | _ \<Rightarrow> Thrown s))"

definition increaseVolume :: "real \<Rightarrow> state \<Rightarrow> bool outcome" where
  "increaseVolume amount s =
     (case getActiveVideo s of
        None \<Rightarrow> Returned False s
      | Some v \<Rightarrow>
          (case assign_volume v (min 1 (volume (video (elems s v)) + amount)) s of
             Thrown s' \<Rightarrow> Thrown s'
           | Returned u s' \<Rightarrow> Returned True s'))"

definition decreaseVolume :: "real \<Rightarrow> state \<Rightarrow> bool outcome" where
  "decreaseVolume amount s =
     (case getActiveVideo s of
        None \<Rightarrow> Returned False s
      | Some v \<Rightarrow>
          (case assign_volume v (max 0 (volume (video (elems s v)) - amount)) s of
             Thrown s' \<Rightarrow> Thrown s'
           | Returned u s' \<Rightarrow> Returned True s'))"

definition increaseSpeed :: "state \<Rightarrow> bool outcome" where
  "increaseSpeed s =
     (case getActiveVideo s of
        None \<Rightarrow> Returned False s
      | Some v \<Rightarrow>
          (let m = video (elems s v);
               currentSpeed = (if playbackRate m \<noteq> 0 then playbackRate m else 1);
               currentIndex = indexOf PLAYBACK_SPEEDS currentSpeed;
               nextIndex = min (currentIndex + 1) (int (length PLAYBACK_SPEEDS) - 1)
           in case at_index PLAYBACK_SPEEDS nextIndex of
                Some r \<Rightarrow> Returned True (set_media v (m\<lparr>playbackRate := r\<rparr>) s)
              | None \<Rightarrow> Thrown s))"

definition decreaseSpeed :: "state \<Rightarrow> bool outcome" where
  "decreaseSpeed s =
     (case getActiveVideo s of
        None \<Rightarrow> Returned False s
      | Some v \<Rightarrow>
          (let m = video (elems s v);
               currentSpeed = (if playbackRate m \<noteq> 0 then playbackRate m else 1);
               currentIndex = indexOf PLAYBACK_SPEEDS currentSpeed;
               prevIndex = max (currentIndex - 1) 0
           in case at_index PLAYBACK_SPEEDS prevIndex of
                Some r \<Rightarrow> Returned True (set_media v (m\<lparr>playbackRate := r\<rparr>) s)
              | None \<Rightarrow> Thrown s))"

definition resetSpeed :: "state \<Rightarrow> bool outcome" where
  "resetSpeed s =
     (case getActiveVideo s of
        None \<Rightarrow> Returned False s
      | Some v \<Rightarrow> Returned True (set_media v ((video (elems s v))\<lparr>playbackRate := 1\<rparr>) s))"

section \<open>Debug interface\<close>

text \<open>
  \<open>cleanupMap\<close> is a WeakMap. A WeakMap has the methods \<open>get\<close>, \<open>set\<close>, \<open>has\<close> and
  \<open>delete\<close>; it cannot be enumerated and has no \<open>forEach\<close>, so the property read
  \<open>cleanupMap.forEach\<close> gives \<open>undefined\<close> (\<open>None\<close>).
\<close>

definition WeakMap_forEach ::
    "(nat \<rightharpoonup> cleanup) \<Rightarrow> ((cleanup \<Rightarrow> 'a \<Rightarrow> 'a) \<Rightarrow> 'a \<Rightarrow> 'a) option" where
  "WeakMap_forEach m = None"

text \<open>\<open>cleanupMap && cleanupMap.forEach && cleanupMap.forEach(() => n++)\<close>, from \<open>n = 0\<close>.\<close>

definition enhancedCount :: "state \<Rightarrow> nat" where
  "enhancedCount s =
     (case WeakMap_forEach (cleanupMap s) of
        None \<Rightarrow> 0
      | Some forEach \<Rightarrow> forEach (\<lambda>fn n. n + 1) 0)"

text \<open>\<open>cleanupMap.forEach && cleanupMap.forEach((fn) => fn && fn())\<close>.\<close>

definition cleanupAll :: "state \<Rightarrow> state" where
  "cleanupAll s =
     (case WeakMap_forEach (cleanupMap s) of
        None \<Rightarrow> s
      | Some forEach \<Rightarrow> forEach run_cleanup s)"

section \<open>Notions the lifecycle properties are stated with\<close>

text \<open>
  The secondary duplicate check of \<open>createControls\<close> succeeds: under the resolved
  attachment point there is a container, and the check takes it as linked to the video.
\<close>

definition found_linked :: "nat \<Rightarrow> state \<Rightarrow> bool" where
  "found_linked v s =
     (case findAttachmentParent v s of
        None \<Rightarrow> False
      | Some parent \<Rightarrow>
          (case (case subtree parent (body s) of
                   None \<Rightarrow> None
                 | Some t \<Rightarrow> querySelector_class s ''custom-seek-container'' t) of
             None \<Rightarrow> False
           | Some e \<Rightarrow> linked s e v))"

text \<open>The call of \<open>createControls\<close> that made a callback, named by its container.\<close>

fun closure_of :: "handler \<Rightarrow> nat" where
  "closure_of (StopProp c) = c"
| "closure_of (OnTimeUpdate c) = c"
| "closure_of (OnLoadedMetadata c) = c"
| "closure_of (OnSeeked c) = c"
| "closure_of (OnSliderInput c) = c"

text \<open>
  A well-formed state: a node occurs once in the document; the nodes of the document and
  the callbacks of the registered listeners exist already (their names are below
  \<open>next_id\<close>, so \<open>document.createElement\<close> returns new ones); and a video with a
  teardown record is in the Enhancement Set.
\<close>

definition well_formed :: "state \<Rightarrow> bool" where
  "well_formed s =
     (distinct (nodes (body s)) \<and>
      (\<forall>n \<in> set (nodes (body s)). n < next_id s) \<and>
      (\<forall>l \<in> set (listeners s). closure_of (fst (snd (snd l))) < next_id s) \<and>
      dom (cleanupMap s) \<subseteq> enhanced s)"

text \<open>
  The videos on which \<open>createControls\<close> constructs an overlay: an existing node that is
  a genuine video element, whose \<open>addEventListener\<close> does not raise, that is not in the
  Enhancement Set, and for which the secondary check finds no linked container.
\<close>

definition attachable :: "state \<Rightarrow> nat \<Rightarrow> bool" where
  "attachable s v =
     (v < next_id s \<and> html_video (elems s v) \<and> \<not> add_listener_raises (elems s v) \<and>
      v \<notin> enhanced s \<and> \<not> found_linked v s)"

text \<open>
  The seven listeners one construction registers, for video \<open>v\<close>, container \<open>c\<close> and
  the slider, which is the node after the container.
\<close>

definition new_listeners :: "nat \<Rightarrow> nat \<Rightarrow> listener list" where
  "new_listeners v c =
     [(c, ''click'', StopProp c, True),
      (c, ''mousedown'', StopProp c, True),
      (Suc c, ''click'', StopProp c, True),
      (v, ''timeupdate'', OnTimeUpdate c, False),
      (v, ''loadedmetadata'', OnLoadedMetadata c, False),
      (v, ''seeked'', OnSeeked c, False),
      (Suc c, ''input'', OnSliderInput c, False)]"

text \<open>Two states are the same but for the objects named in \<open>X\<close>.\<close>

definition agree_off :: "nat set \<Rightarrow> state \<Rightarrow> state \<Rightarrow> bool" where
  "agree_off X s s' =
     (body s = body s' \<and> enhanced s = enhanced s' \<and> cleanupMap s = cleanupMap s' \<and>
      listeners s = listeners s' \<and> activeElement s = activeElement s' \<and>
      innerWidth s = innerWidth s' \<and> innerHeight s = innerHeight s' \<and>
      next_id s = next_id s' \<and> (\<forall>n. n \<notin> X \<longrightarrow> elems s n = elems s' n))"

text \<open>The resolved attachment point of the video is a node of the document.\<close>

definition attachment_in_document :: "state \<Rightarrow> nat \<Rightarrow> bool" where
  "attachment_in_document s v =
     (case findAttachmentParent v s of
        None \<Rightarrow> False
      | Some p \<Rightarrow> p \<in> set (nodes (body s)))"

text \<open>The overlay containers in the document, in document order.\<close>

definition overlay_containers :: "state \<Rightarrow> nat list" where
  "overlay_containers s =
     filter (\<lambda>n. ''custom-seek-container'' \<in> set (classList (elems s n))) (nodes (body s))"

text \<open>
  A sound video: an existing node that is a genuine video element and whose
  \<open>addEventListener\<close> does not raise.
\<close>

definition sound_video :: "state \<Rightarrow> nat \<Rightarrow> bool" where
  "sound_video s v =
     (v < next_id s \<and> html_video (elems s v) \<and> \<not> add_listener_raises (elems s v))"

text \<open>
  What every call of \<open>createControls\<close> keeps, whether it returns or raises: the
  Enhancement Set only grows, and the existing elements stay as they are.
\<close>

definition stable :: "state \<Rightarrow> state \<Rightarrow> bool" where
  "stable s s' =
     (enhanced s \<subseteq> enhanced s' \<and> next_id s \<le> next_id s' \<and>
      (\<forall>n. n < next_id s \<longrightarrow> elems s' n = elems s n))"

text \<open>
  What every step of a batch keeps, an insertion or a removal, whether a call returns or
  raises: the existing elements stay as they are, and keep their names.
\<close>

definition keeps :: "state \<Rightarrow> state \<Rightarrow> bool" where
  "keeps s s' =
     (next_id s \<le> next_id s' \<and> (\<forall>n. n < next_id s \<longrightarrow> elems s' n = elems s n))"

text \<open>
  Every teardown record is filed under the video it tears down: \<open>createControls\<close>
  files the closure \<open>cleanup\<close> under the video the closure holds.
\<close>

definition records_named :: "state \<Rightarrow> bool" where
  "records_named s = (\<forall>v c. cleanupMap s v = Some c \<longrightarrow> cl_video c = v)"

text \<open>No removed node of the records holds the video.\<close>

definition not_removed :: "nat \<Rightarrow> mutation list \<Rightarrow> bool" where
  "not_removed v ms =
     (\<forall>m \<in> set ms. \<forall>nd \<in> set (removedNodes m).
        (case nd of ElementNode t \<Rightarrow> v \<notin> set (nodes t) | _ \<Rightarrow> True))"

text \<open>
  From \<open>s\<close> to \<open>s1\<close> an overlay was constructed for the video: the container (the
  node \<open>next_id s\<close>) was appended to the attachment point and the slider (the node after
  it) to the container, the seven listeners are registered, the video is in the
  Enhancement Set and its teardown record names the two new nodes.
\<close>

definition constructed :: "nat \<Rightarrow> state \<Rightarrow> state \<Rightarrow> bool" where
  "constructed v s s1 =
     (case findAttachmentParent v s of
        None \<Rightarrow> False
      | Some p \<Rightarrow>
          body s1 = appendChild (next_id s) (Node (Suc (next_id s)) [])
                      (appendChild p (Node (next_id s) []) (body s)) \<and>
          next_id s1 = next_id s + 2 \<and>
          elems s1 (next_id s) = container_element \<and>
          elems s1 (Suc (next_id s)) =
            slider_element\<lparr>input_range := input_range (elems s1 (Suc (next_id s)))\<rparr> \<and>
          set (listeners s1) = set (listeners s) \<union> set (new_listeners v (next_id s)) \<and>
          enhanced s1 = insert v (enhanced s) \<and>
          cleanupMap s1 = (cleanupMap s)(v \<mapsto>
            \<lparr>cl_video = v, cl_slider = Suc (next_id s), cl_container = next_id s\<rparr>))"

text \<open>
  The call \<open>createControls v\<close> in state \<open>s\<close> is not cut short: it returns, leaving
  \<open>s1\<close> with the video in the Enhancement Set, along one of the three paths of the
  function. A video already enhanced is left alone; where the secondary check takes a
  container as linked the video is only put into the Enhancement Set; otherwise the
  overlay is constructed.
\<close>

definition attach_completes :: "nat \<Rightarrow> state \<Rightarrow> state \<Rightarrow> bool" where
  "attach_completes v s s1 =
     (createControls v s = Returned () s1 \<and> v \<in> enhanced s1 \<and>
      (v \<in> enhanced s \<longrightarrow> s1 = s) \<and>
      (v \<notin> enhanced s \<and> found_linked v s \<longrightarrow> s1 = s\<lparr>enhanced := insert v (enhanced s)\<rparr>) \<and>
      (v \<notin> enhanced s \<and> \<not> found_linked v s \<longrightarrow> constructed v s s1))"

section \<open>Example pages\<close>

text \<open>
  A page with one video (node 2) in a positioned wrapper (node 1) under the body (node 0).
\<close>

definition demo_video :: element where
  "demo_video =
     (createElement ''VIDEO'')\<lparr>html_video := True,
        bounding := \<lparr>r_top = 0, r_left = 0, r_bottom = 600, r_right = 400,
                     r_width = 400, r_height = 600\<rparr>,
        video := \<lparr>currentTime = 25, duration = Num 100, paused = False, volume = 0.5,
                   playbackRate = 1\<rparr>\<rparr>"

definition demo_elems :: "nat \<Rightarrow> element" where
  "demo_elems =
     (\<lambda>n. createElement ''DIV'')
       (0 := createElement ''BODY'',
        1 := (createElement ''DIV'')\<lparr>css_position := ''relative''\<rparr>,
        2 := demo_video)"

definition demo :: state where
  "demo =
     \<lparr>body = Node 0 [Node 1 [Node 2 []]], elems = demo_elems, activeElement = None,
      innerWidth = 1280, innerHeight = 720, enhanced = {}, cleanupMap = Map.empty,
      listeners = [], next_id = 3\<rparr>"

text \<open>
  The same page with the video at playback rate 3, and with an empty media resource
  (duration 0, currentTime 0).
\<close>

definition demo_rate3 :: state where
  "demo_rate3 = set_media 2 ((video (elems demo 2))\<lparr>playbackRate := 3\<rparr>) demo"

definition demo_empty_media :: state where
  "demo_empty_media =
     set_media 2 ((video (elems demo 2))\<lparr>currentTime := 0, duration := Num 0\<rparr>) demo"

text \<open>
  Three videos in a row under the body: in \<open>gallery\<close> the first is far below the
  viewport, the second is small and the third is large and visible; in
  \<open>gallery_offscreen\<close> all three are far below the viewport.
\<close>

definition video_at :: "real \<Rightarrow> real \<Rightarrow> real \<Rightarrow> real \<Rightarrow> element" where
  "video_at t l w h =
     (createElement ''VIDEO'')\<lparr>html_video := True,
        bounding := \<lparr>r_top = t, r_left = l, r_bottom = t + h, r_right = l + w,
                     r_width = w, r_height = h\<rparr>\<rparr>"

definition gallery :: state where
  "gallery =
     \<lparr>body = Node 0 [Node 1 [], Node 2 [], Node 3 []],
      elems = (\<lambda>n. createElement ''DIV'')
        (0 := createElement ''BODY'',
         1 := video_at 2000 0 400 600,
         2 := video_at 100 100 50 50,
         3 := video_at 100 200 400 600),
      activeElement = None, innerWidth = 1280, innerHeight = 720, enhanced = {},
      cleanupMap = Map.empty, listeners = [], next_id = 4\<rparr>"

definition gallery_offscreen :: state where
  "gallery_offscreen =
     \<lparr>body = Node 0 [Node 1 [], Node 2 [], Node 3 []],
      elems = (\<lambda>n. createElement ''DIV'')
        (0 := createElement ''BODY'',
         1 := video_at 2000 0 100 100,
         2 := video_at 3000 0 300 200,
         3 := video_at 4000 0 200 300),
      activeElement = None, innerWidth = 1280, innerHeight = 720, enhanced = {},
      cleanupMap = Map.empty, listeners = [], next_id = 4\<rparr>"

text \<open>
  Pages for the lifecycle. In \<open>linked_page\<close> the wrapper holds a video with
  \<open>data-custom-id="a"\<close> and a container with \<open>data-for-video="a"\<close>. In \<open>twins\<close>
  the wrapper holds two videos, neither with a data attribute; \<open>twins_first\<close> and
  \<open>demo_first\<close> are \<open>twins\<close> and \<open>demo\<close> after attaching video 2.
\<close>

definition linked_page :: state where
  "linked_page =
     \<lparr>body = Node 0 [Node 1 [Node 2 [], Node 3 []]],
      elems = (\<lambda>n. createElement ''DIV'')
        (0 := createElement ''BODY'',
         1 := (createElement ''DIV'')\<lparr>css_position := ''relative''\<rparr>,
         2 := demo_video\<lparr>data_customId := Some ''a''\<rparr>,
         3 := container_element\<lparr>data_forVideo := Some ''a''\<rparr>),
      activeElement = None, innerWidth = 1280, innerHeight = 720, enhanced = {},
      cleanupMap = Map.empty, listeners = [], next_id = 4\<rparr>"

definition twins :: state where
  "twins =
     \<lparr>body = Node 0 [Node 1 [Node 2 [], Node 3 []]],
      elems = (\<lambda>n. createElement ''DIV'')
        (0 := createElement ''BODY'',
         1 := (createElement ''DIV'')\<lparr>css_position := ''relative''\<rparr>,
         2 := demo_video,
         3 := demo_video),
      activeElement = None, innerWidth = 1280, innerHeight = 720, enhanced = {},
      cleanupMap = Map.empty, listeners = [], next_id = 4\<rparr>"

definition twins_first :: state where
  "twins_first = state_of (createControls 2 twins)"

definition demo_first :: state where
  "demo_first = state_of (createControls 2 demo)"

text \<open>
  In \<open>siblings_page\<close> the wrapper holds two videos; the first is malformed, its
  \<open>addEventListener\<close> raises.
\<close>

definition siblings_page :: state where
  "siblings_page =
     \<lparr>body = Node 0 [Node 1 [Node 2 [], Node 3 []]],
      elems = (\<lambda>n. createElement ''DIV'')
        (0 := createElement ''BODY'',
         1 := (createElement ''DIV'')\<lparr>css_position := ''relative''\<rparr>,
         2 := demo_video\<lparr>add_listener_raises := True\<rparr>,
         3 := demo_video),
      activeElement = None, innerWidth = 1280, innerHeight = 720, enhanced = {},
      cleanupMap = Map.empty, listeners = [], next_id = 4\<rparr>"

text \<open>
  \<open>siblings_thrown\<close> is \<open>siblings_page\<close> after the attach of video 2 has raised.
  \<open>siblings_batch\<close> is a batch of two records over \<open>siblings_page\<close>: video 2 was
  inserted and video 3 taken out, then a text node and video 3 were inserted.
  \<open>twins_batch\<close> is the insertion of the wrapper of \<open>twins\<close>.
\<close>

definition siblings_thrown :: state where
  "siblings_thrown = state_of (createControls 2 siblings_page)"

definition siblings_batch :: "mutation list" where
  "siblings_batch =
     [\<lparr>addedNodes = [ElementNode (Node 2 [])], removedNodes = [ElementNode (Node 3 [])]\<rparr>,
      \<lparr>addedNodes = [TextNode, ElementNode (Node 3 [])], removedNodes = []\<rparr>]"

definition twins_batch :: "mutation list" where
  "twins_batch =
     [\<lparr>addedNodes = [ElementNode (Node 1 [Node 2 [], Node 3 []])], removedNodes = []\<rparr>]"

section \<open>Frame facts and the example pages evaluated\<close>

lemma set_media_frame [simp]:
  "body (set_media v m s) = body s"
  "tagName (elems (set_media v m s) n) = tagName (elems s n)"
  "bounding (elems (set_media v m s) n) = bounding (elems s n)"
  "innerWidth (set_media v m s) = innerWidth s"
  "innerHeight (set_media v m s) = innerHeight s"
  "video (elems (set_media v m s) v) = m"
  "n \<noteq> v \<Longrightarrow> video (elems (set_media v m s) n) = video (elems s n)"
  by (simp_all add: set_media_def)

lemma getActiveVideo_set_media [simp]: "getActiveVideo (set_media v m s) = getActiveVideo s"
proof -
  have q: "\<And>t. querySelectorAll_video (set_media v m s) t = querySelectorAll_video s t"
    by (simp add: querySelectorAll_video_def)
  have f: "\<And>vs. find_in_viewport (set_media v m s) vs = find_in_viewport s vs"
    subgoal for vs by (induction vs) (simp_all add: isInViewport_def Let_def)
    done
  have l: "larger (set_media v m s) = larger s"
    by (intro ext) (simp add: larger_def)
  show ?thesis
    by (simp add: getActiveVideo_def q f l Let_def cong: option.case_cong)
qed

lemma demo_active: "getActiveVideo demo = Some 2"
  by (simp add: getActiveVideo_def demo_def demo_elems_def querySelectorAll_video_def descendants_def createElement_def demo_video_def)

lemma demo_rate: "playbackRate (video (elems demo 2)) = 1"
  by (simp add: demo_def demo_elems_def demo_video_def)

lemma demo_media:
  "duration (video (elems demo 2)) = Num 100" "currentTime (video (elems demo 2)) = 25"
  "volume (video (elems demo 2)) = 0.5"
  by (simp_all add: demo_def demo_elems_def demo_video_def)

lemma fill_set_range [simp]: "input_range (elems (set_range sl d s) sl) = d"
  by (simp add: set_range_def)

section \<open>Geometry Selector: the selection\<close>

text \<open>
  For a rectangle whose bottom is top plus height and whose right is left plus width, as
  a layout rectangle is, the test with the one-box-size margin is the same as touching
  or overlapping the viewport.
\<close>

lemma isInViewport_overlap:
  "r_bottom r = r_top r + r_height r \<Longrightarrow> r_right r = r_left r + r_width r \<Longrightarrow>
   isInViewport s r =
     (0 \<le> r_bottom r \<and> r_top r \<le> innerHeight s \<and> 0 \<le> r_right r \<and> r_left r \<le> innerWidth s)"
  by (auto simp: isInViewport_def)

lemma find_in_viewport_find: "find_in_viewport s vs = List.find (qualifies s) vs"
  by (induction vs) (simp_all add: qualifies_def Let_def)

lemma larger_area: "larger s a x = (if area s x > area s a then x else a)"
  by (simp add: larger_def area_def Let_def)

lemma foldl_larger:
  "area s a \<le> area s (foldl (larger s) a xs) \<and>
   (\<forall>x \<in> set xs. area s x \<le> area s (foldl (larger s) a xs)) \<and>
   (foldl (larger s) a xs = a \<or>
    (\<exists>i < length xs. foldl (larger s) a xs = xs ! i \<and>
        area s a < area s (xs ! i) \<and> (\<forall>j < i. area s (xs ! j) < area s (xs ! i))))"
proof (induction xs arbitrary: a)
  case Nil
  then show ?case by simp
next
  case (Cons x xs)
  let ?b = "larger s a x"
  let ?r = "foldl (larger s) ?b xs"
  have ih: "area s ?b \<le> area s ?r" "\<forall>y \<in> set xs. area s y \<le> area s ?r"
    "?r = ?b \<or> (\<exists>i < length xs. ?r = xs ! i \<and> area s ?b < area s (xs ! i) \<and>
        (\<forall>j < i. area s (xs ! j) < area s (xs ! i)))"
    using Cons.IH [of ?b] by blast+
  have b: "area s a \<le> area s ?b" "area s x \<le> area s ?b"
    by (simp_all add: larger_area)
  have third: "?r = a \<or> (\<exists>i < length (x # xs). ?r = (x # xs) ! i \<and>
        area s a < area s ((x # xs) ! i) \<and> (\<forall>j < i. area s ((x # xs) ! j) < area s ((x # xs) ! i)))"
  proof (cases "?r = ?b")
    case True
    show ?thesis
    proof (cases "area s x > area s a")
      case gt: True
      then have "?r = (x # xs) ! 0 \<and> area s a < area s ((x # xs) ! 0)"
        using True by (simp add: larger_area)
      then show ?thesis by auto
    next
      case False
      then show ?thesis using True by (simp add: larger_area)
    qed
  next
    case False
    then obtain i where i: "i < length xs" "?r = xs ! i" "area s ?b < area s (xs ! i)"
        "\<forall>j < i. area s (xs ! j) < area s (xs ! i)"
      using ih(3) by blast
    have "\<forall>j < Suc i. area s ((x # xs) ! j) < area s ((x # xs) ! Suc i)"
    proof (intro allI impI)
      fix j assume "j < Suc i"
      then show "area s ((x # xs) ! j) < area s ((x # xs) ! Suc i)"
        using i(3,4) b by (cases j) auto
    qed
    moreover have "area s a < area s ((x # xs) ! Suc i)" using i(3) b by simp
    moreover have "Suc i < length (x # xs)" "?r = (x # xs) ! Suc i" using i by simp_all
    ultimately show ?thesis by blast
  qed
  have first: "area s a \<le> area s ?r" using ih(1) b(1) by simp
  have second: "\<forall>y \<in> set (x # xs). area s y \<le> area s ?r" using ih(1,2) b(2) by auto
  show ?case
    using first second third by simp
qed

text \<open>
  Claim C6. \<open>getActiveVideo\<close> returns none when the document has no video and the
  sole video when it has one. With two or more it returns the first video in document
  order that qualifies (box within the viewport grown by one box size, width and height
  above 100); when none qualifies it returns a video of the largest area, the first
  such video in document order.
\<close>

theorem getActiveVideo_selection:
  "(querySelectorAll_video s (body s) = [] \<longrightarrow> getActiveVideo s = None) \<and>
   (\<forall>v. querySelectorAll_video s (body s) = [v] \<longrightarrow> getActiveVideo s = Some v) \<and>
   (2 \<le> length (querySelectorAll_video s (body s)) \<longrightarrow>
      (\<forall>i < length (querySelectorAll_video s (body s)).
         qualifies s (querySelectorAll_video s (body s) ! i) \<and>
         (\<forall>j < i. \<not> qualifies s (querySelectorAll_video s (body s) ! j)) \<longrightarrow>
         getActiveVideo s = Some (querySelectorAll_video s (body s) ! i)) \<and>
      ((\<forall>v \<in> set (querySelectorAll_video s (body s)). \<not> qualifies s v) \<longrightarrow>
         (\<exists>i < length (querySelectorAll_video s (body s)).
            getActiveVideo s = Some (querySelectorAll_video s (body s) ! i) \<and>
            (\<forall>j < length (querySelectorAll_video s (body s)).
               area s (querySelectorAll_video s (body s) ! j)
                 \<le> area s (querySelectorAll_video s (body s) ! i)) \<and>
            (\<forall>j < i. area s (querySelectorAll_video s (body s) ! j)
                 < area s (querySelectorAll_video s (body s) ! i)))))"
proof -
  define vs where "vs = querySelectorAll_video s (body s)"
  have g: "getActiveVideo s =
     (if length vs = 0 then None else if length vs = 1 then Some (hd vs)
      else (case List.find (qualifies s) vs of Some v \<Rightarrow> Some v
            | None \<Rightarrow> Some (foldl (larger s) (hd vs) vs)))"
    by (simp add: getActiveVideo_def vs_def Let_def find_in_viewport_find cong: option.case_cong)
  have p1: "vs = [] \<longrightarrow> getActiveVideo s = None" by (simp add: g)
  have p2: "\<forall>v. vs = [v] \<longrightarrow> getActiveVideo s = Some v" by (simp add: g)
  have p3: "getActiveVideo s = Some (vs ! i)"
    if "2 \<le> length vs" "i < length vs" "qualifies s (vs ! i)" "\<forall>j < i. \<not> qualifies s (vs ! j)" for i
  proof -
    have "List.find (qualifies s) vs = Some (vs ! i)"
      using that by (auto simp: find_Some_iff)
    then show ?thesis using that(1) by (auto simp add: g)
  qed
  have p4: "\<exists>i < length vs. getActiveVideo s = Some (vs ! i) \<and>
            (\<forall>j < length vs. area s (vs ! j) \<le> area s (vs ! i)) \<and>
            (\<forall>j < i. area s (vs ! j) < area s (vs ! i))"
    if len: "2 \<le> length vs" and none: "\<forall>v \<in> set vs. \<not> qualifies s v"
  proof -
    have f: "List.find (qualifies s) vs = None" using none by (simp add: find_None_iff)
    let ?r = "foldl (larger s) (hd vs) vs"
    have r: "getActiveVideo s = Some ?r" using len f by (auto simp add: g)
    have ne: "vs \<noteq> []" using len by auto
    then have hd0: "hd vs = vs ! 0" by (simp add: hd_conv_nth)
    have all: "\<forall>x \<in> set vs. area s x \<le> area s ?r" using foldl_larger [of s "hd vs" vs] by blast
    then have all': "\<forall>j < length vs. area s (vs ! j) \<le> area s ?r" by simp
    have "?r = hd vs \<or> (\<exists>i < length vs. ?r = vs ! i \<and>
        area s (hd vs) < area s (vs ! i) \<and> (\<forall>j < i. area s (vs ! j) < area s (vs ! i)))"
      using foldl_larger [of s "hd vs" vs] by blast
    then show ?thesis
    proof
      assume "?r = hd vs"
      then have "?r = vs ! 0" using hd0 by simp
      then show ?thesis using r all' ne by (intro exI [of _ 0]) simp
    next
      assume "\<exists>i < length vs. ?r = vs ! i \<and>
        area s (hd vs) < area s (vs ! i) \<and> (\<forall>j < i. area s (vs ! j) < area s (vs ! i))"
      then obtain i where "i < length vs" "?r = vs ! i" "\<forall>j < i. area s (vs ! j) < area s (vs ! i)"
        by blast
      then show ?thesis using r all' by (intro exI [of _ i]) simp
    qed
  qed
  show ?thesis
    unfolding vs_def [symmetric] using p1 p2 p3 p4 by blast
qed

lemma gallery_videos:
  "querySelectorAll_video gallery (body gallery) = [1, 2, 3]"
  "querySelectorAll_video gallery_offscreen (body gallery_offscreen) = [1, 2, 3]"
  by (simp_all add: gallery_def gallery_offscreen_def querySelectorAll_video_def
        descendants_def video_at_def createElement_def)

lemma gallery_qualifies:
  "\<not> qualifies gallery 1" "\<not> qualifies gallery 2" "qualifies gallery 3"
  "\<not> qualifies gallery_offscreen 1" "\<not> qualifies gallery_offscreen 2"
  "\<not> qualifies gallery_offscreen 3"
  by (simp_all add: qualifies_def isInViewport_def gallery_def gallery_offscreen_def
        video_at_def)

lemma gallery_area:
  "area gallery_offscreen 1 = 10000" "area gallery_offscreen 2 = 60000"
  "area gallery_offscreen 3 = 60000"
  by (simp_all add: area_def gallery_offscreen_def video_at_def)

theorem getActiveVideo_selection_witness:
  "getActiveVideo gallery = Some 3 \<and> getActiveVideo gallery_offscreen = Some 2"
proof -
  have less2: "\<And>j::nat. j < 2 \<longleftrightarrow> j = 0 \<or> j = 1" by auto
  have less3: "\<And>j::nat. j < 3 \<longleftrightarrow> j = 0 \<or> j = 1 \<or> j = 2" by auto
  have len: "2 \<le> length [1::nat, 2, 3]" "2 < length [1::nat, 2, 3]" by simp_all
  note on = getActiveVideo_selection [of gallery, unfolded gallery_videos]
  note off = getActiveVideo_selection [of gallery_offscreen, unfolded gallery_videos]
  have first: "qualifies gallery ([1, 2, 3] ! 2) \<and>
               (\<forall>j<2. \<not> qualifies gallery ([1, 2, 3] ! j))"
    using gallery_qualifies by (simp add: less2)
  have "getActiveVideo gallery = Some ([1, 2, 3] ! 2)"
    using on len first by blast
  then have g1: "getActiveVideo gallery = Some 3" by simp
  have none: "\<forall>v \<in> set [1, 2, 3]. \<not> qualifies gallery_offscreen v"
    using gallery_qualifies by simp
  have "\<exists>i<length [1::nat, 2, 3]. getActiveVideo gallery_offscreen = Some ([1, 2, 3] ! i) \<and>
          (\<forall>j<length [1::nat, 2, 3]. area gallery_offscreen ([1, 2, 3] ! j)
              \<le> area gallery_offscreen ([1, 2, 3] ! i)) \<and>
          (\<forall>j<i. area gallery_offscreen ([1, 2, 3] ! j) < area gallery_offscreen ([1, 2, 3] ! i))"
    using off len none by blast
  then obtain i where i: "i < length [1::nat, 2, 3]"
      "getActiveVideo gallery_offscreen = Some ([1, 2, 3] ! i)"
      "\<forall>j<length [1::nat, 2, 3]. area gallery_offscreen ([1, 2, 3] ! j)
         \<le> area gallery_offscreen ([1, 2, 3] ! i)"
      "\<forall>j<i. area gallery_offscreen ([1, 2, 3] ! j) < area gallery_offscreen ([1, 2, 3] ! i)"
    by blast
  have one: "(1::nat) < length [1::nat, 2, 3]" by simp
  have "i = 1"
  proof -
    from i(1) have "i = 0 \<or> i = 1 \<or> i = 2" by auto
    then show ?thesis
    proof (elim disjE)
      assume z: "i = 0"
      from i(3) one have "area gallery_offscreen ([1, 2, 3] ! 1)
          \<le> area gallery_offscreen ([1, 2, 3] ! i)" by blast
      then show ?thesis using z by (simp add: gallery_area gallery_area [unfolded One_nat_def])
    next
      assume "i = 1" then show ?thesis .
    next
      assume t: "i = 2"
      then have "(1::nat) < i" by simp
      with i(4) have "area gallery_offscreen ([1, 2, 3] ! 1)
          < area gallery_offscreen ([1, 2, 3] ! i)" by blast
      then show ?thesis using t by (simp add: gallery_area)
    qed
  qed
  then have g2: "getActiveVideo gallery_offscreen = Some 2" using i(2) by simp
  show ?thesis using g1 g2 by simp
qed

section \<open>Progress Renderer: the fill\<close>

text \<open>
  Claim C8. \<open>updateProgress\<close> renders a clamped fill: for a finite duration \<open>d > 0\<close> the
  percentage is \<open>currentTime / d * 100\<close> clamped to [0, 100] (25 for duration 100 and
  currentTime 25; 0 for +Infinity, the quotient being 0); for a duration that is 0,
  negative or NaN it is 0. In every case a percentage within [0, 100] is rendered:
  the function returns and raises nothing.
\<close>

theorem progress_fill_clamped:
  "(\<forall>d. duration (video (elems s v)) = Num d \<and> 0 < d \<longrightarrow>
      s_fill (input_range (elems (updateProgress v sl s) sl)) =
        Some (max 0 (min 100 (currentTime (video (elems s v)) / d * 100)))) \<and>
   (duration (video (elems s v)) = Num 100 \<and> currentTime (video (elems s v)) = 25 \<longrightarrow>
      s_fill (input_range (elems (updateProgress v sl s) sl)) = Some 25) \<and>
   (duration (video (elems s v)) = PosInf \<longrightarrow>
      s_fill (input_range (elems (updateProgress v sl s) sl)) = Some 0) \<and>
   (duration (video (elems s v)) = NaN \<or>
    (\<exists>d. duration (video (elems s v)) = Num d \<and> d \<le> 0) \<longrightarrow>
      s_fill (input_range (elems (updateProgress v sl s) sl)) = Some 0) \<and>
   (\<exists>pct. s_fill (input_range (elems (updateProgress v sl s) sl)) = Some pct \<and>
          0 \<le> pct \<and> pct \<le> 100)"
proof (intro conjI allI impI)
  fix d assume "duration (video (elems s v)) = Num d \<and> 0 < d"
  then show "s_fill (input_range (elems (updateProgress v sl s) sl)) =
        Some (max 0 (min 100 (currentTime (video (elems s v)) / d * 100)))"
    by (simp add: updateProgress_def rendered_def render_progress_def Let_def)
next
  assume "duration (video (elems s v)) = Num 100 \<and> currentTime (video (elems s v)) = 25"
  then show "s_fill (input_range (elems (updateProgress v sl s) sl)) = Some 25"
    by (simp add: updateProgress_def rendered_def render_progress_def Let_def)
next
  assume "duration (video (elems s v)) = PosInf"
  then show "s_fill (input_range (elems (updateProgress v sl s) sl)) = Some 0"
    by (simp add: updateProgress_def rendered_def render_progress_def Let_def)
next
  assume "duration (video (elems s v)) = NaN \<or>
    (\<exists>d. duration (video (elems s v)) = Num d \<and> d \<le> 0)"
  then show "s_fill (input_range (elems (updateProgress v sl s) sl)) = Some 0"
    by (auto simp add: updateProgress_def rendered_def render_fallback_def Let_def)
next
  show "\<exists>pct. s_fill (input_range (elems (updateProgress v sl s) sl)) = Some pct \<and>
          0 \<le> pct \<and> pct \<le> 100"
    by (cases "duration (video (elems s v))")
       (simp_all add: updateProgress_def rendered_def render_fallback_def render_progress_def Let_def)
qed

theorem progress_fill_clamped_witness:
  "duration (video (elems demo 2)) = Num 100 \<and> currentTime (video (elems demo 2)) = 25 \<and>
   s_fill (input_range (elems (updateProgress 2 7 demo) 7)) = Some 25 \<and>
   duration (video (elems demo_empty_media 2)) = Num 0 \<and>
   s_fill (input_range (elems (updateProgress 2 7 demo_empty_media) 7)) = Some 0"
proof -
  have d: "duration (video (elems demo_empty_media 2)) = Num 0"
    by (simp add: demo_empty_media_def)
  show ?thesis
    using progress_fill_clamped [of demo 2 7] progress_fill_clamped [of demo_empty_media 2 7]
    by (simp add: demo_media d)
qed

section \<open>Command Dispatcher: speed\<close>

lemma indexOf_absent: "x \<notin> set xs \<Longrightarrow> indexOf xs x = - 1"
  by (induction xs) (auto simp: Let_def)

lemma increaseSpeed_at:
  assumes "getActiveVideo s = Some v" and "playbackRate (video (elems s v)) = r"
    and "at_index PLAYBACK_SPEEDS
           (min (indexOf PLAYBACK_SPEEDS (if r \<noteq> 0 then r else 1) + 1)
                (int (length PLAYBACK_SPEEDS) - 1)) = Some r'"
  shows "increaseSpeed s =
           Returned True (set_media v ((video (elems s v))\<lparr>playbackRate := r'\<rparr>) s)"
  using assms by (cases "r = 0") (simp_all add: increaseSpeed_def Let_def)

lemma decreaseSpeed_at:
  assumes "getActiveVideo s = Some v" and "playbackRate (video (elems s v)) = r"
    and "at_index PLAYBACK_SPEEDS
           (max (indexOf PLAYBACK_SPEEDS (if r \<noteq> 0 then r else 1) - 1) 0) = Some r'"
  shows "decreaseSpeed s =
           Returned True (set_media v ((video (elems s v))\<lparr>playbackRate := r'\<rparr>) s)"
  using assms by (cases "r = 0") (simp_all add: decreaseSpeed_def Let_def)

lemma next_speed:
  "at_index PLAYBACK_SPEEDS (min (indexOf PLAYBACK_SPEEDS (if (1::real) \<noteq> 0 then 1 else 1) + 1) (int (length PLAYBACK_SPEEDS) - 1)) = Some 1.25"
  "at_index PLAYBACK_SPEEDS (min (indexOf PLAYBACK_SPEEDS (if (1.25::real) \<noteq> 0 then 1.25 else 1) + 1) (int (length PLAYBACK_SPEEDS) - 1)) = Some 1.5"
  "at_index PLAYBACK_SPEEDS (min (indexOf PLAYBACK_SPEEDS (if (1.5::real) \<noteq> 0 then 1.5 else 1) + 1) (int (length PLAYBACK_SPEEDS) - 1)) = Some 1.75"
  "at_index PLAYBACK_SPEEDS (min (indexOf PLAYBACK_SPEEDS (if (1.75::real) \<noteq> 0 then 1.75 else 1) + 1) (int (length PLAYBACK_SPEEDS) - 1)) = Some 2"
  "at_index PLAYBACK_SPEEDS (min (indexOf PLAYBACK_SPEEDS (if (2::real) \<noteq> 0 then 2 else 1) + 1) (int (length PLAYBACK_SPEEDS) - 1)) = Some 2"
  "at_index PLAYBACK_SPEEDS (max (indexOf PLAYBACK_SPEEDS (if (0.25::real) \<noteq> 0 then 0.25 else 1) - 1) 0) = Some 0.25"
  by (simp_all add: PLAYBACK_SPEEDS_def at_index_def)


text \<open>
  Claim C7. Speed cycling is clamped, with no wraparound, over the list
  0.25, 0.5, 0.75, 1, 1.25, 1.5, 1.75, 2: for an active video at rate 1, five calls of
  \<open>increaseSpeed\<close> in a row return true and leave the rates 1.25, 1.5, 1.75, 2, 2;
  \<open>decreaseSpeed\<close> at rate 0.25 leaves 0.25.
\<close>

theorem speed_cycling_clamped:
  assumes active: "getActiveVideo s = Some v"
  shows "(playbackRate (video (elems s v)) = 1 \<longrightarrow>
          (\<exists>s1 s2 s3 s4 s5.
            increaseSpeed s = Returned True s1 \<and> playbackRate (video (elems s1 v)) = 1.25 \<and>
            increaseSpeed s1 = Returned True s2 \<and> playbackRate (video (elems s2 v)) = 1.5 \<and>
            increaseSpeed s2 = Returned True s3 \<and> playbackRate (video (elems s3 v)) = 1.75 \<and>
            increaseSpeed s3 = Returned True s4 \<and> playbackRate (video (elems s4 v)) = 2 \<and>
            increaseSpeed s4 = Returned True s5 \<and> playbackRate (video (elems s5 v)) = 2)) \<and>
         (playbackRate (video (elems s v)) = 0.25 \<longrightarrow>
          (\<exists>s1. decreaseSpeed s = Returned True s1 \<and> playbackRate (video (elems s1 v)) = 0.25))"
proof (intro conjI impI)
  assume r: "playbackRate (video (elems s v)) = 1"
  define s1 where "s1 = set_media v ((video (elems s v))\<lparr>playbackRate := 1.25\<rparr>) s"
  define s2 where "s2 = set_media v ((video (elems s1 v))\<lparr>playbackRate := 1.5\<rparr>) s1"
  define s3 where "s3 = set_media v ((video (elems s2 v))\<lparr>playbackRate := 1.75\<rparr>) s2"
  define s4 where "s4 = set_media v ((video (elems s3 v))\<lparr>playbackRate := 2\<rparr>) s3"
  define s5 where "s5 = set_media v ((video (elems s4 v))\<lparr>playbackRate := 2\<rparr>) s4"
  have a1: "getActiveVideo s1 = Some v" by (simp add: s1_def active)
  have a2: "getActiveVideo s2 = Some v" by (simp add: s2_def a1)
  have a3: "getActiveVideo s3 = Some v" by (simp add: s3_def a2)
  have a4: "getActiveVideo s4 = Some v" by (simp add: s4_def a3)
  have r1: "playbackRate (video (elems s1 v)) = 1.25" by (simp add: s1_def)
  have r2: "playbackRate (video (elems s2 v)) = 1.5" by (simp add: s2_def)
  have r3: "playbackRate (video (elems s3 v)) = 1.75" by (simp add: s3_def)
  have r4: "playbackRate (video (elems s4 v)) = 2" by (simp add: s4_def)
  have r5: "playbackRate (video (elems s5 v)) = 2" by (simp add: s5_def)
  have i1: "increaseSpeed s = Returned True s1"
    unfolding s1_def by (rule increaseSpeed_at [OF active r next_speed(1)])
  have i2: "increaseSpeed s1 = Returned True s2"
    unfolding s2_def by (rule increaseSpeed_at [OF a1 r1 next_speed(2)])
  have i3: "increaseSpeed s2 = Returned True s3"
    unfolding s3_def by (rule increaseSpeed_at [OF a2 r2 next_speed(3)])
  have i4: "increaseSpeed s3 = Returned True s4"
    unfolding s4_def by (rule increaseSpeed_at [OF a3 r3 next_speed(4)])
  have i5: "increaseSpeed s4 = Returned True s5"
    unfolding s5_def by (rule increaseSpeed_at [OF a4 r4 next_speed(5)])
  show "\<exists>s1 s2 s3 s4 s5.
            increaseSpeed s = Returned True s1 \<and> playbackRate (video (elems s1 v)) = 1.25 \<and>
            increaseSpeed s1 = Returned True s2 \<and> playbackRate (video (elems s2 v)) = 1.5 \<and>
            increaseSpeed s2 = Returned True s3 \<and> playbackRate (video (elems s3 v)) = 1.75 \<and>
            increaseSpeed s3 = Returned True s4 \<and> playbackRate (video (elems s4 v)) = 2 \<and>
            increaseSpeed s4 = Returned True s5 \<and> playbackRate (video (elems s5 v)) = 2"
    using i1 i2 i3 i4 i5 r1 r2 r3 r4 r5 by blast
next
  assume r: "playbackRate (video (elems s v)) = 0.25"
  have "decreaseSpeed s =
          Returned True (set_media v ((video (elems s v))\<lparr>playbackRate := 0.25\<rparr>) s)"
    by (rule decreaseSpeed_at [OF active r next_speed(6)])
  then show "\<exists>s1. decreaseSpeed s = Returned True s1 \<and> playbackRate (video (elems s1 v)) = 0.25"
    by simp
qed

theorem speed_cycling_clamped_witness:
  "getActiveVideo demo = Some 2 \<and> playbackRate (video (elems demo 2)) = 1 \<and>
   (\<exists>s1 s2 s3 s4 s5.
      increaseSpeed demo = Returned True s1 \<and> playbackRate (video (elems s1 2)) = 1.25 \<and>
      increaseSpeed s1 = Returned True s2 \<and> playbackRate (video (elems s2 2)) = 1.5 \<and>
      increaseSpeed s2 = Returned True s3 \<and> playbackRate (video (elems s3 2)) = 1.75 \<and>
      increaseSpeed s3 = Returned True s4 \<and> playbackRate (video (elems s4 2)) = 2 \<and>
      increaseSpeed s4 = Returned True s5 \<and> playbackRate (video (elems s5 2)) = 2)"
  using speed_cycling_clamped [OF demo_active] demo_active demo_rate by blast

text \<open>
  Claim C10. For an active video whose playbackRate is not 0 and not in the list, the
  lookup gives index -1 and both \<open>increaseSpeed\<close> and \<open>decreaseSpeed\<close> set the rate
  to 0.25, the first entry; a playbackRate of 0 is taken as 1 before the lookup, so the
  two set 1.25 and 0.75.
\<close>

theorem speed_outside_list:
  assumes active: "getActiveVideo s = Some v"
  shows "(playbackRate (video (elems s v)) \<noteq> 0 \<and>
          playbackRate (video (elems s v)) \<notin> set PLAYBACK_SPEEDS \<longrightarrow>
            indexOf PLAYBACK_SPEEDS (playbackRate (video (elems s v))) = - 1 \<and>
            increaseSpeed s =
              Returned True (set_media v ((video (elems s v))\<lparr>playbackRate := 0.25\<rparr>) s) \<and>
            decreaseSpeed s =
              Returned True (set_media v ((video (elems s v))\<lparr>playbackRate := 0.25\<rparr>) s)) \<and>
         (playbackRate (video (elems s v)) = 0 \<longrightarrow>
            increaseSpeed s =
              Returned True (set_media v ((video (elems s v))\<lparr>playbackRate := 1.25\<rparr>) s) \<and>
            decreaseSpeed s =
              Returned True (set_media v ((video (elems s v))\<lparr>playbackRate := 0.75\<rparr>) s))"
proof (intro conjI impI)
  assume h: "playbackRate (video (elems s v)) \<noteq> 0 \<and>
             playbackRate (video (elems s v)) \<notin> set PLAYBACK_SPEEDS"
  then show i: "indexOf PLAYBACK_SPEEDS (playbackRate (video (elems s v))) = - 1"
    by (simp add: indexOf_absent)
  have len: "length PLAYBACK_SPEEDS = 8" and first: "PLAYBACK_SPEEDS ! 0 = 0.25"
    by (simp_all add: PLAYBACK_SPEEDS_def)
  show "increaseSpeed s =
          Returned True (set_media v ((video (elems s v))\<lparr>playbackRate := 0.25\<rparr>) s)"
    using h by (simp add: increaseSpeed_def active Let_def i at_index_def len first)
  show "decreaseSpeed s =
          Returned True (set_media v ((video (elems s v))\<lparr>playbackRate := 0.25\<rparr>) s)"
    using h by (simp add: decreaseSpeed_def active Let_def i at_index_def len first)
next
  assume z: "playbackRate (video (elems s v)) = 0"
  have up: "at_index PLAYBACK_SPEEDS
              (min (indexOf PLAYBACK_SPEEDS (if (0::real) \<noteq> 0 then 0 else 1) + 1)
                   (int (length PLAYBACK_SPEEDS) - 1)) = Some 1.25"
    and down: "at_index PLAYBACK_SPEEDS
              (max (indexOf PLAYBACK_SPEEDS (if (0::real) \<noteq> 0 then 0 else 1) - 1) 0) = Some 0.75"
    by (simp_all add: PLAYBACK_SPEEDS_def at_index_def)
  show "increaseSpeed s =
          Returned True (set_media v ((video (elems s v))\<lparr>playbackRate := 1.25\<rparr>) s)"
    by (rule increaseSpeed_at [OF active z up])
  show "decreaseSpeed s =
          Returned True (set_media v ((video (elems s v))\<lparr>playbackRate := 0.75\<rparr>) s)"
    by (rule decreaseSpeed_at [OF active z down])
qed

theorem speed_outside_list_witness:
  "getActiveVideo demo_rate3 = Some 2 \<and>
   playbackRate (video (elems demo_rate3 2)) = 3 \<and>
   (3::real) \<noteq> 0 \<and> 3 \<notin> set PLAYBACK_SPEEDS \<and>
   playbackRate (video (elems (state_of (increaseSpeed demo_rate3)) 2)) = 0.25 \<and>
   playbackRate (video (elems (state_of (decreaseSpeed demo_rate3)) 2)) = 0.25"
proof -
  have a: "getActiveVideo demo_rate3 = Some 2"
    by (simp add: demo_rate3_def demo_active)
  have r: "playbackRate (video (elems demo_rate3 2)) = 3"
    by (simp add: demo_rate3_def)
  have n: "(3::real) \<noteq> 0 \<and> 3 \<notin> set PLAYBACK_SPEEDS"
    by (simp add: PLAYBACK_SPEEDS_def)
  show ?thesis
    using speed_outside_list [OF a] a r n by simp
qed

section \<open>Command Dispatcher: seeking and volume\<close>

text \<open>
  Claim C9, as the code has it. For an active video \<open>seekBackward\<close> assigns
  \<open>max(0, currentTime - seconds)\<close> to currentTime. \<open>seekForward\<close> assigns
  \<open>min(duration, currentTime + seconds)\<close> when the duration is a nonzero number, and
  \<open>currentTime + seconds\<close>, not clamped, when the duration is 0, NaN or +Infinity (for 0
  and NaN the fallback of \<open>video.duration || ...\<close>). With a nonzero finite duration,
  seconds not negative and currentTime within [0, duration] before, both leave
  currentTime within [0, duration].

  \<open>increaseVolume\<close> computes \<open>min(1, volume + amount)\<close> and \<open>decreaseVolume\<close> computes
  \<open>max(0, volume - amount)\<close>: each clamps on one side only. When the computed value is
  within [0, 1] it becomes the volume and the call returns true; otherwise (a negative
  amount can do that) the assignment raises and the volume stays as it was. So a volume
  within [0, 1] stays within [0, 1] for every amount, and for an amount that is not
  negative both calls return true with the clamped value.
\<close>

theorem seek_volume_clamped:
  assumes active: "getActiveVideo s = Some v"
  shows
    "seekBackward seconds s =
       Returned True (set_media v ((video (elems s v))
          \<lparr>currentTime := max 0 (currentTime (video (elems s v)) - seconds)\<rparr>) s) \<and>
     (\<forall>d. duration (video (elems s v)) = Num d \<and> d \<noteq> 0 \<longrightarrow>
        seekForward seconds s =
          Returned True (set_media v ((video (elems s v))
             \<lparr>currentTime := min d (currentTime (video (elems s v)) + seconds)\<rparr>) s)) \<and>
     (duration (video (elems s v)) = PosInf \<or> duration (video (elems s v)) = NaN \<or>
      duration (video (elems s v)) = Num 0 \<longrightarrow>
        seekForward seconds s =
          Returned True (set_media v ((video (elems s v))
             \<lparr>currentTime := currentTime (video (elems s v)) + seconds\<rparr>) s)) \<and>
     (\<forall>d. duration (video (elems s v)) = Num d \<and> d \<noteq> 0 \<and> 0 \<le> seconds \<and>
          0 \<le> currentTime (video (elems s v)) \<and> currentTime (video (elems s v)) \<le> d \<longrightarrow>
        0 \<le> currentTime (video (elems (state_of (seekBackward seconds s)) v)) \<and>
        currentTime (video (elems (state_of (seekBackward seconds s)) v)) \<le> d \<and>
        0 \<le> currentTime (video (elems (state_of (seekForward seconds s)) v)) \<and>
        currentTime (video (elems (state_of (seekForward seconds s)) v)) \<le> d) \<and>
     increaseVolume amount s =
       (if 0 \<le> min 1 (volume (video (elems s v)) + amount)
        then Returned True (set_media v ((video (elems s v))
               \<lparr>volume := min 1 (volume (video (elems s v)) + amount)\<rparr>) s)
        else Thrown s) \<and>
     decreaseVolume amount s =
       (if max 0 (volume (video (elems s v)) - amount) \<le> 1
        then Returned True (set_media v ((video (elems s v))
               \<lparr>volume := max 0 (volume (video (elems s v)) - amount)\<rparr>) s)
        else Thrown s) \<and>
     (0 \<le> volume (video (elems s v)) \<and> volume (video (elems s v)) \<le> 1 \<longrightarrow>
        0 \<le> volume (video (elems (state_of (increaseVolume amount s)) v)) \<and>
        volume (video (elems (state_of (increaseVolume amount s)) v)) \<le> 1 \<and>
        0 \<le> volume (video (elems (state_of (decreaseVolume amount s)) v)) \<and>
        volume (video (elems (state_of (decreaseVolume amount s)) v)) \<le> 1) \<and>
     (0 \<le> amount \<and> 0 \<le> volume (video (elems s v)) \<and> volume (video (elems s v)) \<le> 1 \<longrightarrow>
        increaseVolume amount s =
          Returned True (set_media v ((video (elems s v))
             \<lparr>volume := min 1 (volume (video (elems s v)) + amount)\<rparr>) s) \<and>
        decreaseVolume amount s =
          Returned True (set_media v ((video (elems s v))
             \<lparr>volume := max 0 (volume (video (elems s v)) - amount)\<rparr>) s))"
proof -
  have bwd: "seekBackward seconds s =
       Returned True (set_media v ((video (elems s v))
          \<lparr>currentTime := max 0 (currentTime (video (elems s v)) - seconds)\<rparr>) s)"
    by (simp add: seekBackward_def active Let_def)
  have fwd: "seekForward seconds s =
          Returned True (set_media v ((video (elems s v))
             \<lparr>currentTime := min d (currentTime (video (elems s v)) + seconds)\<rparr>) s)"
    if "duration (video (elems s v)) = Num d" "d \<noteq> 0" for d
    using that by (simp add: seekForward_def active Let_def)
  have fwd': "seekForward seconds s =
          Returned True (set_media v ((video (elems s v))
             \<lparr>currentTime := currentTime (video (elems s v)) + seconds\<rparr>) s)"
    if "duration (video (elems s v)) = PosInf \<or> duration (video (elems s v)) = NaN \<or>
      duration (video (elems s v)) = Num 0"
    using that by (auto simp add: seekForward_def active Let_def)
  have up: "increaseVolume amount s =
       (if 0 \<le> min 1 (volume (video (elems s v)) + amount)
        then Returned True (set_media v ((video (elems s v))
               \<lparr>volume := min 1 (volume (video (elems s v)) + amount)\<rparr>) s)
        else Thrown s)"
    by (simp add: increaseVolume_def assign_volume_def active)
  have down: "decreaseVolume amount s =
       (if max 0 (volume (video (elems s v)) - amount) \<le> 1
        then Returned True (set_media v ((video (elems s v))
               \<lparr>volume := max 0 (volume (video (elems s v)) - amount)\<rparr>) s)
        else Thrown s)"
    by (simp add: decreaseVolume_def assign_volume_def active)
  have seek_bounds:
    "0 \<le> currentTime (video (elems (state_of (seekBackward seconds s)) v)) \<and>
        currentTime (video (elems (state_of (seekBackward seconds s)) v)) \<le> d \<and>
        0 \<le> currentTime (video (elems (state_of (seekForward seconds s)) v)) \<and>
        currentTime (video (elems (state_of (seekForward seconds s)) v)) \<le> d"
    if "duration (video (elems s v)) = Num d \<and> d \<noteq> 0 \<and> 0 \<le> seconds \<and>
          0 \<le> currentTime (video (elems s v)) \<and> currentTime (video (elems s v)) \<le> d" for d
    using that by (simp add: bwd fwd [of d])
  have vol_bounds:
    "0 \<le> volume (video (elems (state_of (increaseVolume amount s)) v)) \<and>
        volume (video (elems (state_of (increaseVolume amount s)) v)) \<le> 1 \<and>
        0 \<le> volume (video (elems (state_of (decreaseVolume amount s)) v)) \<and>
        volume (video (elems (state_of (decreaseVolume amount s)) v)) \<le> 1"
    if "0 \<le> volume (video (elems s v)) \<and> volume (video (elems s v)) \<le> 1"
    using that by (simp add: up down)
  have vol_returns:
    "increaseVolume amount s =
          Returned True (set_media v ((video (elems s v))
             \<lparr>volume := min 1 (volume (video (elems s v)) + amount)\<rparr>) s) \<and>
        decreaseVolume amount s =
          Returned True (set_media v ((video (elems s v))
             \<lparr>volume := max 0 (volume (video (elems s v)) - amount)\<rparr>) s)"
    if "0 \<le> amount \<and> 0 \<le> volume (video (elems s v)) \<and> volume (video (elems s v)) \<le> 1"
    using that by (simp add: up down)
  show ?thesis
    using bwd fwd fwd' up down seek_bounds vol_bounds vol_returns by blast
qed

theorem seek_volume_clamped_witness:
  "getActiveVideo demo = Some 2 \<and>
   currentTime (video (elems (state_of (seekBackward 30 demo)) 2)) = 0 \<and>
   currentTime (video (elems (state_of (seekForward 80 demo)) 2)) = 100 \<and>
   currentTime (video (elems (state_of (seekForward 5 demo_empty_media)) 2)) = 5 \<and>
   volume (video (elems (state_of (increaseVolume 0.7 demo)) 2)) = 1 \<and>
   volume (video (elems (state_of (decreaseVolume 0.7 demo)) 2)) = 0 \<and>
   increaseVolume (- 0.7) demo = Thrown demo \<and>
   decreaseVolume (- 0.7) demo = Thrown demo"
proof -
  have a: "getActiveVideo demo_empty_media = Some 2"
    by (simp add: demo_empty_media_def demo_active)
  have d: "duration (video (elems demo_empty_media 2)) = Num 0"
    and c: "currentTime (video (elems demo_empty_media 2)) = 0"
    by (simp_all add: demo_empty_media_def)
  show ?thesis
    using seek_volume_clamped [OF demo_active, of 30 "0.7"]
      seek_volume_clamped [OF demo_active, of 80 "- 0.7"]
      seek_volume_clamped [OF a, of 5 0]
    by (simp add: demo_media demo_active d c)
qed

text \<open>
  The claim as stated fails for a video of duration 0 at currentTime 0: \<open>seekForward(5)\<close>
  sets currentTime to 5, which is neither \<open>min(0, 0 + 5)\<close> nor within [0, 0].
\<close>

theorem seekForward_zero_duration_counterexample:
  "getActiveVideo demo_empty_media = Some 2 \<and>
   duration (video (elems demo_empty_media 2)) = Num 0 \<and>
   currentTime (video (elems demo_empty_media 2)) = 0 \<and>
   seekForward 5 demo_empty_media =
     Returned True (set_media 2 ((video (elems demo_empty_media 2))\<lparr>currentTime := 5\<rparr>)
                      demo_empty_media) \<and>
   currentTime (video (elems (state_of (seekForward 5 demo_empty_media)) 2)) = 5 \<and>
   min (0::real) (0 + 5) \<noteq> 5 \<and>
   \<not> (5 \<le> (0::real))"
proof -
  have a: "getActiveVideo demo_empty_media = Some 2"
    by (simp add: demo_empty_media_def demo_active)
  have d: "duration (video (elems demo_empty_media 2)) = Num 0"
    and c: "currentTime (video (elems demo_empty_media 2)) = 0"
    by (simp_all add: demo_empty_media_def)
  have f: "seekForward 5 demo_empty_media =
     Returned True (set_media 2 ((video (elems demo_empty_media 2))\<lparr>currentTime := 5\<rparr>)
                      demo_empty_media)"
    by (simp add: seekForward_def a d c Let_def)
  show ?thesis by (simp add: a d c f)
qed

section \<open>The document tree under appendChild and removeChild\<close>

lemma appendChild_absent: "p \<notin> set (nodes t) \<Longrightarrow> appendChild p c t = t"
  by (induction t) (auto intro: map_idI)

lemma root_in_nodes [simp]: "root_id t \<in> set (nodes t)"
  by (cases t) simp

lemma mset_nodes_appendChild_list:
  assumes ih: "\<And>k. k \<in> set cs \<Longrightarrow> p \<in> set (nodes k) \<Longrightarrow> distinct (nodes k) \<Longrightarrow>
                  mset (nodes (appendChild p c k)) = mset (nodes k) + mset (nodes c)"
    and "p \<in> set (concat (map nodes cs))" and "distinct (concat (map nodes cs))"
  shows "mset (concat (map nodes (map (appendChild p c) cs))) =
         mset (concat (map nodes cs)) + mset (nodes c)"
  using assms
proof (induction cs)
  case Nil
  then show ?case by simp
next
  case (Cons k ks)
  show ?case
  proof (cases "p \<in> set (nodes k)")
    case True
    then have "\<forall>k' \<in> set ks. p \<notin> set (nodes k')"
      using Cons.prems(3) by auto
    then have "map (appendChild p c) ks = ks"
      by (auto intro: map_idI simp: appendChild_absent)
    moreover have "mset (nodes (appendChild p c k)) = mset (nodes k) + mset (nodes c)"
      using Cons.prems(1) [of k] True Cons.prems(3) by simp
    ultimately show ?thesis by simp
  next
    case False
    then have "appendChild p c k = k" by (rule appendChild_absent)
    moreover have "mset (concat (map nodes (map (appendChild p c) ks))) =
         mset (concat (map nodes ks)) + mset (nodes c)"
      using Cons.IH Cons.prems False by auto
    ultimately show ?thesis by simp
  qed
qed

lemma mset_nodes_appendChild:
  "p \<in> set (nodes t) \<Longrightarrow> distinct (nodes t) \<Longrightarrow>
   mset (nodes (appendChild p c t)) = mset (nodes t) + mset (nodes c)"
proof (induction t)
  case (Node n cs)
  show ?case
  proof (cases "n = p")
    case True
    then show ?thesis by simp
  next
    case False
    have "mset (concat (map nodes (map (appendChild p c) cs))) =
         mset (concat (map nodes cs)) + mset (nodes c)"
      using Node False by (intro mset_nodes_appendChild_list) auto
    then show ?thesis using False by simp
  qed
qed

lemma removeChild_appendChild:
  "c \<notin> set (nodes t) \<Longrightarrow> removeChild p c (appendChild p (Node c ks) t) = t"
proof (induction t)
  case (Node n cs)
  have roots: "\<forall>k \<in> set cs. root_id k \<noteq> c"
  proof
    fix k assume "k \<in> set cs"
    then have "root_id k \<in> set (concat (map nodes cs))"
      by (auto intro!: bexI [of _ k])
    then show "root_id k \<noteq> c" using Node.prems by auto
  qed
  show ?case
  proof (cases "n = p")
    case True
    then show ?thesis using roots by (simp add: filter_id_conv)
  next
    case False
    have "map (removeChild p c \<circ> appendChild p (Node c ks)) cs = cs"
      using Node by (intro map_idI) auto
    then show ?thesis using False by simp
  qed
qed

lemma appendChild_twice:
  "c \<notin> set (nodes t) \<Longrightarrow>
   appendChild c x (appendChild p (Node c []) t) = appendChild p (Node c [x]) t"
proof (induction t)
  case (Node n cs)
  have nc: "n \<noteq> c" using Node.prems by simp
  have kids_absent: "\<forall>k \<in> set cs. c \<notin> set (nodes k)" using Node.prems by auto
  show ?case
  proof (cases "n = p")
    case True
    have "map (appendChild c x) cs = cs"
      using kids_absent by (auto intro: map_idI simp: appendChild_absent)
    then show ?thesis using True nc by simp
  next
    case False
    have "map (appendChild c x \<circ> appendChild p (Node c [])) cs =
          map (appendChild p (Node c [x])) cs"
      using Node kids_absent by (intro map_cong) auto
    then show ?thesis using False nc by simp
  qed
qed

lemma ancestors_absent: "c \<notin> set (nodes t) \<Longrightarrow> ancestors c t = None"
proof (induction t)
  case (Node n cs)
  have "\<forall>k \<in> set cs. ancestors c k = None" using Node by auto
  then have "first_some (map (ancestors c) cs) = None"
    by (induction cs) auto
  then show ?case using Node.prems by simp
qed

lemma first_some_headed:
  assumes "\<forall>x \<in> set xs. x = None \<or> (\<exists>up. x = Some (p # up))"
    and "\<exists>x \<in> set xs. x \<noteq> None"
  shows "\<exists>up. first_some xs = Some (p # up)"
  using assms
proof (induction xs)
  case Nil
  then show ?case by simp
next
  case (Cons x xs)
  then show ?case by (cases x) auto
qed

lemma first_some_append_None:
  "\<forall>x \<in> set xs. x = None \<Longrightarrow> first_some (xs @ ys) = first_some ys"
  by (induction xs) auto

lemma ancestors_appended:
  "p \<in> set (nodes t) \<Longrightarrow> c \<notin> set (nodes t) \<Longrightarrow>
   \<exists>up. ancestors c (appendChild p (Node c ks) t) = Some (p # up)"
proof (induction t)
  case (Node n cs)
  have nc: "n \<noteq> c" using Node.prems by simp
  have kids_absent: "\<forall>k \<in> set cs. c \<notin> set (nodes k)" using Node.prems by auto
  show ?case
  proof (cases "n = p")
    case True
    have "first_some (map (ancestors c) (cs @ [Node c ks])) = Some []"
      using kids_absent by (simp add: first_some_append_None ancestors_absent)
    then show ?thesis using True nc by simp
  next
    case False
    let ?xs = "map (ancestors c) (map (appendChild p (Node c ks)) cs)"
    have a: "\<forall>x \<in> set ?xs. x = None \<or> (\<exists>up. x = Some (p # up))"
    proof
      fix x assume "x \<in> set ?xs"
      then obtain k where k: "k \<in> set cs" "x = ancestors c (appendChild p (Node c ks) k)"
        by auto
      show "x = None \<or> (\<exists>up. x = Some (p # up))"
      proof (cases "p \<in> set (nodes k)")
        case True
        then show ?thesis using Node.IH [of k] k kids_absent by auto
      next
        case False
        then show ?thesis using k kids_absent by (simp add: appendChild_absent ancestors_absent)
      qed
    qed
    have "\<exists>k \<in> set cs. p \<in> set (nodes k)" using Node.prems False by auto
    then obtain k where k: "k \<in> set cs" "p \<in> set (nodes k)" by blast
    then have "ancestors c (appendChild p (Node c ks) k) \<noteq> None"
      using Node.IH [of k] kids_absent by auto
    then have b: "\<exists>x \<in> set ?xs. x \<noteq> None" using k(1) by auto
    obtain up where "first_some ?xs = Some (p # up)"
      using first_some_headed [OF a b] by blast
    then show ?thesis using False nc by simp
  qed
qed

lemma parentElement_appended:
  "c \<notin> set (nodes t) \<Longrightarrow>
   parentElement c (appendChild p (Node c ks) t) = (if p \<in> set (nodes t) then Some p else None)"
proof (cases "p \<in> set (nodes t)")
  case True
  assume "c \<notin> set (nodes t)"
  then obtain up where "ancestors c (appendChild p (Node c ks) t) = Some (p # up)"
    using ancestors_appended True by blast
  then show ?thesis using True by (simp add: parentElement_def)
next
  case False
  assume "c \<notin> set (nodes t)"
  then show ?thesis using False by (simp add: parentElement_def appendChild_absent ancestors_absent)
qed

lemma first_some_Some: "first_some xs = Some y \<Longrightarrow> Some y \<in> set xs"
  by (induction xs rule: first_some.induct) auto

lemma ancestors_subset: "ancestors v t = Some up \<Longrightarrow> set up \<subseteq> set (nodes t)"
proof (induction t arbitrary: up)
  case (Node n cs)
  show ?case
  proof (cases "n = v")
    case True
    then show ?thesis using Node.prems by simp
  next
    case False
    then obtain up' where up': "first_some (map (ancestors v) cs) = Some up'" "up = up' @ [n]"
      using Node.prems by (auto split: option.splits)
    then obtain k where "k \<in> set cs" "ancestors v k = Some up'"
      using first_some_Some [OF up'(1)] by auto
    then have "set up' \<subseteq> set (concat (map nodes cs))"
      using Node.IH [of k up'] by auto
    then show ?thesis using up'(2) by auto
  qed
qed

lemma subtree_subset: "subtree p t = Some t' \<Longrightarrow> set (nodes t') \<subseteq> set (nodes t)"
proof (induction t)
  case (Node n cs)
  show ?case
  proof (cases "n = p")
    case True
    then show ?thesis using Node.prems by auto
  next
    case False
    then have "first_some (map (subtree p) cs) = Some t'" using Node.prems by simp
    then obtain k where "k \<in> set cs" "subtree p k = Some t'"
      using first_some_Some by fastforce
    then have "set (nodes t') \<subseteq> set (concat (map nodes cs))"
      using Node.IH [of k] by auto
    then show ?thesis by auto
  qed
qed

lemma descendants_subset: "set (descendants t) \<subseteq> set (nodes t)"
  by (cases t) (auto simp add: descendants_def)

section \<open>Enhancement Lifecycle Manager: what attach and detach do\<close>

lemma createControls_paths:
  "createControls v s =
     (if \<not> html_video (elems s v) \<or> v \<in> enhanced s then Returned () s
      else if found_linked v s then Returned () (s\<lparr>enhanced := insert v (enhanced s)\<rparr>)
      else (case findAttachmentParent v s of None \<Rightarrow> Returned () s
            | Some parent \<Rightarrow> build_controls v parent s))"
  by (simp add: createControls_def found_linked_def Let_def split: option.splits)

lemma findAttachmentParent_Some: "\<exists>p. findAttachmentParent v s = Some p"
  by (simp add: findAttachmentParent_def split: option.splits)

lemma addEventListener_frame [simp]:
  "body (addEventListener l s) = body s"
  "elems (addEventListener l s) = elems s"
  "enhanced (addEventListener l s) = enhanced s"
  "cleanupMap (addEventListener l s) = cleanupMap s"
  "next_id (addEventListener l s) = next_id s"
  "activeElement (addEventListener l s) = activeElement s"
  "innerWidth (addEventListener l s) = innerWidth s"
  "innerHeight (addEventListener l s) = innerHeight s"
  by (simp_all add: addEventListener_def)

lemma removeEventListener_frame [simp]:
  "body (removeEventListener l s) = body s"
  "elems (removeEventListener l s) = elems s"
  "enhanced (removeEventListener l s) = enhanced s"
  "cleanupMap (removeEventListener l s) = cleanupMap s"
  "next_id (removeEventListener l s) = next_id s"
  "activeElement (removeEventListener l s) = activeElement s"
  "innerWidth (removeEventListener l s) = innerWidth s"
  "innerHeight (removeEventListener l s) = innerHeight s"
  "listeners (removeEventListener l s) = removeAll l (listeners s)"
  by (simp_all add: removeEventListener_def)

lemma set_range_frame [simp]:
  "body (set_range sl d s) = body s"
  "enhanced (set_range sl d s) = enhanced s"
  "cleanupMap (set_range sl d s) = cleanupMap s"
  "next_id (set_range sl d s) = next_id s"
  "listeners (set_range sl d s) = listeners s"
  "activeElement (set_range sl d s) = activeElement s"
  "innerWidth (set_range sl d s) = innerWidth s"
  "innerHeight (set_range sl d s) = innerHeight s"
  "n \<noteq> sl \<Longrightarrow> elems (set_range sl d s) n = elems s n"
  by (simp_all add: set_range_def)

lemma updateProgress_frame [simp]:
  "body (updateProgress v sl s) = body s"
  "enhanced (updateProgress v sl s) = enhanced s"
  "cleanupMap (updateProgress v sl s) = cleanupMap s"
  "next_id (updateProgress v sl s) = next_id s"
  "listeners (updateProgress v sl s) = listeners s"
  "activeElement (updateProgress v sl s) = activeElement s"
  "innerWidth (updateProgress v sl s) = innerWidth s"
  "innerHeight (updateProgress v sl s) = innerHeight s"
  "n \<noteq> sl \<Longrightarrow> elems (updateProgress v sl s) n = elems s n"
  by (simp_all add: updateProgress_def)

lemma addEventListener_listeners:
  "listeners (addEventListener l s) = (if l \<in> set (listeners s) then listeners s else listeners s @ [l])"
  by (simp add: addEventListener_def)

lemma build_controls_returns:
  assumes "\<not> add_listener_raises (elems s v)" and "v < next_id s"
  shows "build_controls v p s = Returned () (state_of (build_controls v p s))"
  using assms by (simp add: build_controls_def Let_def)

lemma build_controls_fields:
  assumes "\<not> add_listener_raises (elems s v)" and "v < next_id s"
  shows "body (state_of (build_controls v p s)) =
           appendChild (next_id s) (Node (Suc (next_id s)) [])
             (appendChild p (Node (next_id s) []) (body s))"
    and "enhanced (state_of (build_controls v p s)) = insert v (enhanced s)"
    and "cleanupMap (state_of (build_controls v p s)) = (cleanupMap s)(v \<mapsto>
           \<lparr>cl_video = v, cl_slider = Suc (next_id s), cl_container = next_id s\<rparr>)"
    and "next_id (state_of (build_controls v p s)) = next_id s + 2"
    and "activeElement (state_of (build_controls v p s)) = activeElement s"
    and "innerWidth (state_of (build_controls v p s)) = innerWidth s"
    and "innerHeight (state_of (build_controls v p s)) = innerHeight s"
  using assms by (simp_all add: build_controls_def Let_def)

lemma build_controls_elems:
  assumes "\<not> add_listener_raises (elems s v)" and "v < next_id s"
  shows "elems (state_of (build_controls v p s)) (next_id s) = container_element"
    and "n \<noteq> next_id s \<Longrightarrow> n \<noteq> Suc (next_id s) \<Longrightarrow>
         elems (state_of (build_controls v p s)) n = elems s n"
  using assms by (simp_all add: build_controls_def Let_def)

lemma fresh_listener:
  assumes "\<forall>l \<in> set (listeners s). closure_of (fst (snd (snd l))) < next_id s"
    and "closure_of h = next_id s"
  shows "(t, e, h, cap) \<notin> set (listeners s)"
  using assms by force

lemma build_controls_listeners:
  assumes "\<not> add_listener_raises (elems s v)" and "v < next_id s"
    and fresh: "\<forall>l \<in> set (listeners s). closure_of (fst (snd (snd l))) < next_id s"
  shows "listeners (state_of (build_controls v p s)) =
           listeners s @ new_listeners v (next_id s)"
proof -
  have f: "\<And>t e h cap. closure_of h = next_id s \<Longrightarrow> (t, e, h, cap) \<notin> set (listeners s)"
    using fresh_listener [OF fresh] by blast
  show ?thesis
    using assms(1,2)
    by (simp add: build_controls_def Let_def addEventListener_listeners new_listeners_def f)
qed

lemma run_cleanup_fields:
  "body (run_cleanup c s) =
     (case parentElement (cl_container c) (body s) of
        None \<Rightarrow> body s
      | Some p \<Rightarrow> removeChild p (cl_container c) (body s))"
  "enhanced (run_cleanup c s) = enhanced s - {cl_video c}"
  "cleanupMap (run_cleanup c s) = (cleanupMap s)(cl_video c := None)"
  "next_id (run_cleanup c s) = next_id s"
  "elems (run_cleanup c s) = elems s"
  "activeElement (run_cleanup c s) = activeElement s"
  "innerWidth (run_cleanup c s) = innerWidth s"
  "innerHeight (run_cleanup c s) = innerHeight s"
  by (simp_all add: run_cleanup_def Let_def split: option.splits)

lemma run_cleanup_listeners:
  "listeners (run_cleanup c s) =
     removeAll (cl_slider c, ''click'', StopProp (cl_container c), True)
      (removeAll (cl_container c, ''mousedown'', StopProp (cl_container c), True)
        (removeAll (cl_container c, ''click'', StopProp (cl_container c), True)
          (removeAll (cl_slider c, ''input'', OnSliderInput (cl_container c), False)
            (removeAll (cl_video c, ''seeked'', OnSeeked (cl_container c), False)
              (removeAll (cl_video c, ''loadedmetadata'', OnLoadedMetadata (cl_container c), False)
                (removeAll (cl_video c, ''timeupdate'', OnTimeUpdate (cl_container c), False)
                  (listeners s)))))))"
  by (simp add: run_cleanup_def Let_def split: option.splits)

lemma remove_new_listeners:
  assumes fresh: "\<forall>l \<in> set ls. closure_of (fst (snd (snd l))) < c"
  shows "removeAll (Suc c, ''click'', StopProp c, True)
      (removeAll (c, ''mousedown'', StopProp c, True)
        (removeAll (c, ''click'', StopProp c, True)
          (removeAll (Suc c, ''input'', OnSliderInput c, False)
            (removeAll (v, ''seeked'', OnSeeked c, False)
              (removeAll (v, ''loadedmetadata'', OnLoadedMetadata c, False)
                (removeAll (v, ''timeupdate'', OnTimeUpdate c, False)
                  (ls @ new_listeners v c))))))) = ls"
proof -
  have f: "\<And>t e h cap. closure_of h = c \<Longrightarrow> (t, e, h, cap) \<notin> set ls"
    using fresh by force
  show ?thesis
    by (simp add: new_listeners_def f)
qed

lemma positioned_ancestor_cong:
  "body s = body s' \<Longrightarrow> \<forall>el \<in> set up. elems s el = elems s' el \<Longrightarrow>
   positioned_ancestor s up = positioned_ancestor s' up"
  by (induction up) simp_all

lemma findAttachmentParent_cong:
  assumes "body s = body s'" and "\<forall>n \<in> insert v (set (nodes (body s))). elems s n = elems s' n"
  shows "findAttachmentParent v s = findAttachmentParent v s'"
proof -
  have v: "elems s v = elems s' v" using assms(2) by simp
  have "positioned_ancestor s up = positioned_ancestor s' up"
    if "ancestors v (body s) = Some up" for up
    using ancestors_subset [OF that] assms by (intro positioned_ancestor_cong) auto
  moreover have "positioned_ancestor s [] = positioned_ancestor s' []" by simp
  ultimately show ?thesis
    using assms(1) v by (simp add: findAttachmentParent_def split: option.splits)
qed

lemma querySelector_class_cong:
  assumes "\<forall>n \<in> set (nodes t). elems s n = elems s' n"
  shows "querySelector_class s c t = querySelector_class s' c t"
  unfolding querySelector_class_def
  using assms descendants_subset [of t] by (intro find_cong) auto

lemma querySelector_class_in:
  "querySelector_class s c t = Some e \<Longrightarrow> e \<in> set (nodes t)"
  using descendants_subset [of t]
  by (auto simp: querySelector_class_def find_Some_iff)

lemma found_linked_cong:
  assumes "body s = body s'" and "\<forall>n \<in> insert v (set (nodes (body s))). elems s n = elems s' n"
  shows "found_linked v s = found_linked v s'"
proof -
  have p: "findAttachmentParent v s = findAttachmentParent v s'"
    using assms by (rule findAttachmentParent_cong)
  have v: "elems s v = elems s' v" using assms(2) by simp
  have q: "querySelector_class s c t = querySelector_class s' c t"
    if "subtree parent (body s) = Some t" for parent t c
    using subtree_subset [OF that] assms(2) by (intro querySelector_class_cong) auto
  have l: "linked s e v = linked s' e v"
    if "subtree parent (body s) = Some t" "querySelector_class s c t = Some e" for parent t c e
  proof -
    have "e \<in> set (nodes (body s))"
      using subtree_subset [OF that(1)] querySelector_class_in [OF that(2)] by auto
    then show ?thesis using assms(2) v by (simp add: linked_def)
  qed
  show ?thesis
    unfolding found_linked_def p [symmetric] assms(1) [symmetric]
    by (auto split: option.splits simp: q l)
qed

lemma build_controls_slider:
  assumes "\<not> add_listener_raises (elems s v)" and "v < next_id s"
  shows "elems (state_of (build_controls v p s)) (Suc (next_id s)) =
     slider_element\<lparr>input_range :=
        rendered (video (elems s v)) (activeElement s = Some (Suc (next_id s)))
          (if \<not> isNaN (duration (video (elems s v)))
           then (input_range slider_element)\<lparr>s_max := Some (duration (video (elems s v)))\<rparr>
           else input_range slider_element)\<rparr>"
  using assms
  by (simp add: build_controls_def Let_def updateProgress_def set_range_def)

lemma createControls_attachable:
  assumes "attachable s v" and "findAttachmentParent v s = Some p"
  shows "createControls v s = Returned () (state_of (build_controls v p s))"
  using assms build_controls_returns [of s v p]
  by (simp add: createControls_paths attachable_def)

lemma attach_body:
  assumes a: "attachable s v" and w: "well_formed s" and p: "findAttachmentParent v s = Some p"
  shows "body (state_of (createControls v s)) =
           appendChild p (Node (next_id s) [Node (Suc (next_id s)) []]) (body s)"
proof -
  have c: "next_id s \<notin> set (nodes (body s))"
    using w by (auto simp: well_formed_def)
  have r: "\<not> add_listener_raises (elems s v)" "v < next_id s"
    using a by (simp_all add: attachable_def)
  show ?thesis
    by (simp add: createControls_attachable [OF a p] build_controls_fields(1) [OF r]
          appendChild_twice [OF c])
qed

lemma attach_old_elems:
  assumes a: "attachable s v" and p: "findAttachmentParent v s = Some p"
    and n: "n < next_id s"
  shows "elems (state_of (createControls v s)) n = elems s n"
proof -
  have r: "\<not> add_listener_raises (elems s v)" "v < next_id s"
    using a by (simp_all add: attachable_def)
  show ?thesis
    using n by (simp add: createControls_attachable [OF a p] build_controls_elems(2) [OF r])
qed

lemma attach_containers:
  assumes a: "attachable s v" and w: "well_formed s" and p: "findAttachmentParent v s = Some p"
    and d: "p \<in> set (nodes (body s))"
  shows "length (overlay_containers (state_of (createControls v s))) =
           length (overlay_containers s) + 1"
    and "next_id s \<in> set (overlay_containers (state_of (createControls v s)))"
proof -
  let ?s1 = "state_of (createControls v s)"
  let ?c = "next_id s"
  let ?P = "\<lambda>s n. ''custom-seek-container'' \<in> set (classList (elems s n))"
  have r: "\<not> add_listener_raises (elems s v)" "v < next_id s"
    using a by (simp_all add: attachable_def)
  have dist: "distinct (nodes (body s))" and old: "\<forall>n \<in> set (nodes (body s)). n < next_id s"
    using w by (simp_all add: well_formed_def)
  have m: "mset (nodes (body ?s1)) = mset (nodes (body s)) + {#?c, Suc ?c#}"
    by (simp add: attach_body [OF a w p] mset_nodes_appendChild [OF d dist])
  have pc: "?P ?s1 ?c"
    by (simp add: createControls_attachable [OF a p] build_controls_elems(1) [OF r]
          container_element_def createElement_def)
  have ps: "\<not> ?P ?s1 (Suc ?c)"
    by (simp add: createControls_attachable [OF a p] build_controls_slider [OF r]
          slider_element_def createElement_def)
  have same: "filter_mset (?P ?s1) (mset (nodes (body s))) = filter_mset (?P s) (mset (nodes (body s)))"
    using old by (intro filter_mset_cong) (auto simp: attach_old_elems [OF a p])
  have "length (overlay_containers ?s1) = size (filter_mset (?P ?s1) (mset (nodes (body ?s1))))"
    unfolding overlay_containers_def by (metis mset_filter size_mset)
  also have "\<dots> = size (filter_mset (?P s) (mset (nodes (body s)))) + 1"
    using pc ps by (simp add: m same)
  also have "size (filter_mset (?P s) (mset (nodes (body s)))) = length (overlay_containers s)"
    unfolding overlay_containers_def by (metis mset_filter size_mset)
  finally show "length (overlay_containers ?s1) = length (overlay_containers s) + 1" .
  have "?c \<in># mset (nodes (body ?s1))" by (simp add: m)
  then have "?c \<in> set (nodes (body ?s1))" by simp
  then show "?c \<in> set (overlay_containers ?s1)"
    using pc by (simp add: overlay_containers_def)
qed


lemma build_controls_agree:
  assumes g: "agree_off X s s'" and vX: "v \<notin> X"
    and r: "\<not> add_listener_raises (elems s v)" "v < next_id s"
    and fresh: "\<forall>l \<in> set (listeners s). closure_of (fst (snd (snd l))) < next_id s"
  shows "agree_off X (state_of (build_controls v p s)) (state_of (build_controls v p s'))"
proof -
  have ev: "elems s v = elems s' v" using g vX by (simp add: agree_off_def)
  have n: "next_id s = next_id s'" and b: "body s = body s'" and l: "listeners s = listeners s'"
    and f: "activeElement s = activeElement s'"
    using g by (simp_all add: agree_off_def)
  have r': "\<not> add_listener_raises (elems s' v)" "v < next_id s'"
    using r ev n by simp_all
  have fresh': "\<forall>l \<in> set (listeners s'). closure_of (fst (snd (snd l))) < next_id s'"
    using fresh l n by simp
  have el: "elems (state_of (build_controls v p s)) k = elems (state_of (build_controls v p s')) k"
    if "k \<notin> X" for k
  proof -
    consider "k = next_id s" | "k = Suc (next_id s)" | "k \<noteq> next_id s" "k \<noteq> Suc (next_id s)"
      by blast
    then show ?thesis
    proof cases
      case 1
      then show ?thesis
        using build_controls_elems(1) [OF r, of p] build_controls_elems(1) [OF r', of p] n by simp
    next
      case 2
      then show ?thesis
        using build_controls_slider [OF r, of p] build_controls_slider [OF r', of p] n ev f by simp
    next
      case 3
      then show ?thesis
        using build_controls_elems(2) [OF r, of k p] build_controls_elems(2) [OF r', of k p]
          n g that by (simp add: agree_off_def)
    qed
  qed
  show ?thesis
    unfolding agree_off_def
    using g el
    by (simp add: build_controls_fields [OF r] build_controls_fields [OF r']
          build_controls_listeners [OF r fresh] build_controls_listeners [OF r' fresh']
          agree_off_def)
qed

lemma attachable_agree:
  assumes g: "agree_off X s s'" and vX: "v \<notin> X" and X: "X \<inter> set (nodes (body s)) = {}"
  shows "attachable s v = attachable s' v"
    and "findAttachmentParent v s = findAttachmentParent v s'"
proof -
  have b: "body s = body s'" using g by (simp add: agree_off_def)
  have e: "\<forall>n \<in> insert v (set (nodes (body s))). elems s n = elems s' n"
    using g vX X by (auto simp: agree_off_def)
  show "findAttachmentParent v s = findAttachmentParent v s'"
    using b e by (rule findAttachmentParent_cong)
  have "found_linked v s = found_linked v s'"
    using b e by (rule found_linked_cong)
  then show "attachable s v = attachable s' v"
    using g e by (simp add: attachable_def agree_off_def)
qed

lemma detach_restores:
  assumes a: "attachable s v" and w: "well_formed s"
  shows "agree_off {next_id s, Suc (next_id s)}
           (cleanupVideo v (state_of (createControls v s))) (s\<lparr>next_id := next_id s + 2\<rparr>)"
proof -
  obtain p where p: "findAttachmentParent v s = Some p"
    using findAttachmentParent_Some by blast
  let ?c = "next_id s"
  let ?s1 = "state_of (createControls v s)"
  let ?rec = "\<lparr>cl_video = v, cl_slider = Suc ?c, cl_container = ?c\<rparr>"
  have r: "\<not> add_listener_raises (elems s v)" "v < next_id s" and ne: "v \<notin> enhanced s"
    using a by (simp_all add: attachable_def)
  have fresh: "\<forall>l \<in> set (listeners s). closure_of (fst (snd (snd l))) < next_id s"
    and c: "?c \<notin> set (nodes (body s))" and dom: "dom (cleanupMap s) \<subseteq> enhanced s"
    using w by (auto simp: well_formed_def)
  have s1: "?s1 = state_of (build_controls v p s)"
    by (simp add: createControls_attachable [OF a p])
  have m1: "cleanupMap ?s1 v = Some ?rec"
    by (simp add: s1 build_controls_fields(3) [OF r])
  have cv: "cleanupVideo v ?s1 = run_cleanup ?rec ?s1"
    by (simp add: cleanupVideo_def m1)
  have b1: "body ?s1 = appendChild p (Node ?c [Node (Suc ?c) []]) (body s)"
    by (rule attach_body [OF a w p])
  have body: "body (run_cleanup ?rec ?s1) = body s"
    by (simp add: run_cleanup_fields(1) b1 parentElement_appended [OF c]
          removeChild_appendChild [OF c] appendChild_absent)
  have enh: "enhanced (run_cleanup ?rec ?s1) = enhanced s"
    using ne by (simp add: run_cleanup_fields(2) s1 build_controls_fields(2) [OF r])
  have none: "cleanupMap s v = None" using dom ne by auto
  have map: "cleanupMap (run_cleanup ?rec ?s1) = cleanupMap s"
    using none by (auto simp add: run_cleanup_fields(3) s1 build_controls_fields(3) [OF r] fun_upd_idem)
  have l1: "listeners ?s1 = listeners s @ new_listeners v ?c"
    by (simp add: s1 build_controls_listeners [OF r fresh])
  have lis: "listeners (run_cleanup ?rec ?s1) = listeners s"
    by (simp only: run_cleanup_listeners cleanup.select_convs l1
          remove_new_listeners [OF fresh])
  have el: "elems (run_cleanup ?rec ?s1) n = elems s n" if "n \<noteq> ?c" "n \<noteq> Suc ?c" for n
    using that by (simp add: run_cleanup_fields(5) s1 build_controls_elems(2) [OF r])
  show ?thesis
    unfolding agree_off_def cv
    using body enh map lis el
    by (simp add: run_cleanup_fields s1 build_controls_fields [OF r])
qed

lemma attachable_advance:
  assumes a: "attachable s v"
  shows "attachable (s\<lparr>next_id := next_id s + 2\<rparr>) v"
    and "findAttachmentParent v (s\<lparr>next_id := next_id s + 2\<rparr>) = findAttachmentParent v s"
proof -
  let ?s' = "s\<lparr>next_id := next_id s + 2\<rparr>"
  have b: "body ?s' = body s" by simp
  have e: "\<forall>n \<in> insert v (set (nodes (body ?s'))). elems ?s' n = elems s n" by simp
  show "findAttachmentParent v ?s' = findAttachmentParent v s"
    using b e by (rule findAttachmentParent_cong)
  have "found_linked v ?s' = found_linked v s"
    using b e by (rule found_linked_cong)
  then show "attachable ?s' v" using a by (simp add: attachable_def)
qed

lemma demo_parent: "findAttachmentParent 2 demo = Some 1"
  by (simp add: findAttachmentParent_def demo_def demo_elems_def demo_video_def
        createElement_def parentElement_def)

lemma demo_attachable: "attachable demo 2"
  by (simp add: attachable_def found_linked_def demo_parent)
     (simp add: demo_def demo_elems_def demo_video_def createElement_def
        querySelector_class_def descendants_def)

lemma demo_well_formed: "well_formed demo"
  by (simp add: well_formed_def demo_def)

lemma demo_in_document: "attachment_in_document demo 2"
  by (simp add: attachment_in_document_def demo_parent) (simp add: demo_def)

lemma demo_plain:
  "next_id demo = 3" "overlay_containers demo = []" "listeners demo = []"
  "body demo = Node 0 [Node 1 [Node 2 []]]"
  by (simp_all add: demo_def overlay_containers_def demo_elems_def demo_video_def
        createElement_def)

lemma linked_page_parent: "findAttachmentParent 2 linked_page = Some 1"
  by (simp add: findAttachmentParent_def linked_page_def demo_video_def
        createElement_def parentElement_def)

lemma linked_page_found: "found_linked 2 linked_page"
  by (simp add: found_linked_def linked_page_parent)
     (simp add: linked_page_def demo_video_def createElement_def container_element_def
        querySelector_class_def descendants_def linked_def)

lemma twins_parent: "findAttachmentParent 2 twins = Some 1"
  by (simp add: findAttachmentParent_def twins_def demo_video_def
        createElement_def parentElement_def)

lemma twins_attachable: "attachable twins 2"
  by (simp add: attachable_def found_linked_def twins_parent)
     (simp add: twins_def demo_video_def createElement_def
        querySelector_class_def descendants_def)

lemma twins_well_formed: "well_formed twins"
  by (simp add: well_formed_def twins_def)

lemma twins_first_fields:
  "createControls 2 twins = Returned () twins_first"
  "body twins_first = Node 0 [Node 1 [Node 2 [], Node 3 [], Node 4 [Node 5 []]]]"
  "enhanced twins_first = {2}"
  "cleanupMap twins_first = [2 \<mapsto> \<lparr>cl_video = 2, cl_slider = 5, cl_container = 4\<rparr>]"
  "elems twins_first 0 = elems twins 0" "elems twins_first 1 = elems twins 1"
  "elems twins_first 2 = elems twins 2" "elems twins_first 3 = elems twins 3"
  "elems twins_first 4 = container_element"
  "classList (elems twins_first 5) = [''custom-slider'']"
proof -
  have r: "\<not> add_listener_raises (elems twins 2)" "2 < next_id twins"
    using twins_attachable by (simp_all add: attachable_def)
  have n: "next_id twins = 4" "body twins = Node 0 [Node 1 [Node 2 [], Node 3 []]]"
    "enhanced twins = {}" "cleanupMap twins = Map.empty"
    by (simp_all add: twins_def)
  note c = createControls_attachable [OF twins_attachable twins_parent]
  show "createControls 2 twins = Returned () twins_first"
    by (simp add: twins_first_def c)
  show "body twins_first = Node 0 [Node 1 [Node 2 [], Node 3 [], Node 4 [Node 5 []]]]"
    unfolding twins_first_def
    by (simp add: attach_body [OF twins_attachable twins_well_formed twins_parent] n)
  show "enhanced twins_first = {2}"
    by (simp add: twins_first_def c build_controls_fields(2) [OF r] n)
  show "cleanupMap twins_first = [2 \<mapsto> \<lparr>cl_video = 2, cl_slider = 5, cl_container = 4\<rparr>]"
    by (simp add: twins_first_def c build_controls_fields(3) [OF r] n)
  show "elems twins_first 0 = elems twins 0" "elems twins_first 1 = elems twins 1"
    "elems twins_first 2 = elems twins 2" "elems twins_first 3 = elems twins 3"
    unfolding twins_first_def
    by (simp_all add: attach_old_elems [OF twins_attachable twins_parent] n)
  show "elems twins_first 4 = container_element"
    using build_controls_elems(1) [OF r, of 1] by (simp add: twins_first_def c n)
  show "classList (elems twins_first 5) = [''custom-slider'']"
    using build_controls_slider [OF r, of 1]
    by (simp add: twins_first_def c n slider_element_def createElement_def)
qed

lemmas twins_first_elems = twins_first_fields(5-10) twins_first_fields(6) [unfolded One_nat_def]

lemma twins_elems:
  "elems twins 0 = createElement ''BODY''"
  "elems twins (Suc 0) = (createElement ''DIV'')\<lparr>css_position := ''relative''\<rparr>"
  "elems twins 2 = demo_video" "elems twins 3 = demo_video"
  by (simp_all add: twins_def)

lemma twins_first_parent: "findAttachmentParent 3 twins_first = Some 1"
  by (simp add: findAttachmentParent_def twins_first_fields(2) twins_first_elems twins_elems
        parentElement_def demo_video_def createElement_def)

lemma twins_first_found: "found_linked 3 twins_first"
  by (simp add: found_linked_def twins_first_parent twins_first_fields(2) twins_first_elems
        twins_elems querySelector_class_def descendants_def linked_def demo_video_def
        createElement_def container_element_def)

section \<open>Batches: what the initial pass and the watcher keep\<close>

lemma stable_refl [simp]: "stable s s"
  by (simp add: stable_def)

lemma stable_trans: "stable s s' \<Longrightarrow> stable s' s'' \<Longrightarrow> stable s s''"
  by (auto simp: stable_def)

lemma stable_sound: "stable s s' \<Longrightarrow> sound_video s v \<Longrightarrow> sound_video s' v"
  by (auto simp: stable_def sound_video_def)

lemma stable_enhanced: "stable s s' \<Longrightarrow> v \<in> enhanced s \<Longrightarrow> v \<in> enhanced s'"
  by (auto simp: stable_def)

lemma build_controls_stable: "stable s (state_of (build_controls v p s))"
proof -
  have e: "enhanced s \<subseteq> enhanced (state_of (build_controls v p s))"
    by (simp add: build_controls_def Let_def del: fun_upd_apply) blast
  have n: "next_id s \<le> next_id (state_of (build_controls v p s))"
    by (simp add: build_controls_def Let_def del: fun_upd_apply)
  have l: "elems (state_of (build_controls v p s)) k = elems s k" if "k < next_id s" for k
    using that by (simp add: build_controls_def Let_def fun_upd_other del: fun_upd_apply)
  show ?thesis using e n l by (simp add: stable_def)
qed

lemma createControls_stable: "stable s (state_of (createControls v s))"
  using build_controls_stable [of s v]
  by (auto simp: createControls_paths stable_def split: option.splits)

lemma createControls_sound:
  assumes "sound_video s v"
  shows "\<exists>s'. createControls v s = Returned () s' \<and> v \<in> enhanced s'"
proof -
  have r: "\<not> add_listener_raises (elems s v)" "v < next_id s" and h: "html_video (elems s v)"
    using assms by (simp_all add: sound_video_def)
  obtain p where p: "findAttachmentParent v s = Some p"
    using findAttachmentParent_Some by blast
  show ?thesis
    using h p build_controls_returns [OF r, of p] build_controls_fields(2) [OF r, of p]
    by (auto simp: createControls_paths)
qed

lemma forEach_try_stable: "stable s (forEach_try_createControls vs s)"
proof (induction vs arbitrary: s)
  case Nil
  show ?case by simp
next
  case (Cons v vs)
  show ?case
    using stable_trans [OF createControls_stable Cons] by simp
qed

lemma forEach_try_enhances:
  "v \<in> set vs \<Longrightarrow> sound_video s v \<Longrightarrow> v \<in> enhanced (forEach_try_createControls vs s)"
proof (induction vs arbitrary: s)
  case Nil
  then show ?case by simp
next
  case (Cons a vs)
  let ?s' = "state_of (createControls a s)"
  show ?case
  proof (cases "v = a")
    case True
    then have "v \<in> enhanced ?s'"
      using createControls_sound [OF Cons.prems(2)] by auto
    then show ?thesis
      using stable_enhanced [OF forEach_try_stable, of v ?s' vs] by simp
  next
    case False
    then have "v \<in> set vs" using Cons.prems(1) by simp
    moreover have "sound_video ?s' v"
      using stable_sound [OF createControls_stable Cons.prems(2)] .
    ultimately show ?thesis using Cons.IH by simp
  qed
qed

lemma forEach_stable: "stable s (state_of (forEach_createControls vs s))"
proof (induction vs arbitrary: s)
  case Nil
  show ?case by simp
next
  case (Cons v vs)
  show ?case
  proof (cases "createControls v s")
    case (Returned u s')
    then have "stable s s'" using createControls_stable [of s v] by simp
    then show ?thesis using Returned Cons [of s'] by (auto intro: stable_trans)
  next
    case (Thrown s')
    then have "stable s s'" using createControls_stable [of s v] by simp
    then show ?thesis using Thrown by simp
  qed
qed

lemma added_node_stable: "stable s (added_node nd s)"
  using createControls_stable forEach_stable
  by (cases nd) (simp_all add: added_node_def)

lemma fold_added_stable: "stable s (fold added_node batch s)"
proof (induction batch arbitrary: s)
  case Nil
  show ?case by simp
next
  case (Cons nd batch)
  show ?case using stable_trans [OF added_node_stable Cons] by simp
qed

lemma build_controls_raises:
  assumes "add_listener_raises (elems s v)" and "v < next_id s"
  shows "build_controls v p s = Thrown (state_of (build_controls v p s))"
    and "enhanced (state_of (build_controls v p s)) = enhanced s"
  using assms by (simp_all add: build_controls_def Let_def)

lemma observer_insertions [simp]:
  "observer [\<lparr>addedNodes = batch, removedNodes = []\<rparr>] s = fold added_node batch s"
  by simp

lemma siblings_elems:
  "elems siblings_page 0 = createElement ''BODY''"
  "elems siblings_page (Suc 0) = (createElement ''DIV'')\<lparr>css_position := ''relative''\<rparr>"
  "elems siblings_page 2 = demo_video\<lparr>add_listener_raises := True\<rparr>"
  "elems siblings_page 3 = demo_video"
  "body siblings_page = Node 0 [Node 1 [Node 2 [], Node 3 []]]"
  "next_id siblings_page = 4" "enhanced siblings_page = {}"
  by (simp_all add: siblings_page_def)

lemma siblings_videos:
  "querySelectorAll_video siblings_page (body siblings_page) = [2, 3]"
  "querySelectorAll_video siblings_page (Node 1 [Node 2 [], Node 3 []]) = [2, 3]"
  "tagName (elems siblings_page 1) \<noteq> ''VIDEO''"
  "tagName (elems siblings_page 2) = ''VIDEO''"
  "tagName (elems siblings_page 3) = ''VIDEO''"
  "sound_video siblings_page 3"
  "add_listener_raises (elems siblings_page 2)"
  "html_video (elems siblings_page 2)"
  by (simp_all add: querySelectorAll_video_def descendants_def siblings_elems
        demo_video_def createElement_def sound_video_def)

lemma siblings_parent: "findAttachmentParent 2 siblings_page = Some 1"
  by (simp add: findAttachmentParent_def siblings_elems demo_video_def
        createElement_def parentElement_def)

lemma siblings_throws:
  "createControls 2 siblings_page = Thrown (state_of (createControls 2 siblings_page))"
  "enhanced (state_of (createControls 2 siblings_page)) = {}"
proof -
  have f: "\<not> found_linked 2 siblings_page"
    by (simp add: found_linked_def siblings_parent siblings_elems demo_video_def
          createElement_def querySelector_class_def descendants_def)
  have c: "createControls 2 siblings_page = build_controls 2 1 siblings_page"
    using f siblings_videos(8)
    by (simp add: createControls_paths siblings_parent siblings_elems)
  have r: "add_listener_raises (elems siblings_page 2)" "2 < next_id siblings_page"
    by (simp_all add: siblings_elems)
  show "createControls 2 siblings_page = Thrown (state_of (createControls 2 siblings_page))"
    unfolding c by (rule build_controls_raises(1) [OF r])
  show "enhanced (state_of (createControls 2 siblings_page)) = {}"
    unfolding c by (simp add: build_controls_raises(2) [OF r] siblings_elems)
qed

text \<open>What a call of \<open>createControls\<close> on a sound video does.\<close>

lemma addEventListener_set:
  "set (listeners (addEventListener l s)) = insert l (set (listeners s))"
  by (auto simp: addEventListener_def)

lemma build_controls_listener_set:
  assumes "\<not> add_listener_raises (elems s v)" and "v < next_id s"
  shows "set (listeners (state_of (build_controls v p s))) =
           set (listeners s) \<union> set (new_listeners v (next_id s))"
  using assms
  by (simp add: build_controls_def Let_def addEventListener_set new_listeners_def
        insert_commute)

lemma build_controls_constructed:
  assumes r: "\<not> add_listener_raises (elems s v)" "v < next_id s"
    and p: "findAttachmentParent v s = Some p"
  shows "constructed v s (state_of (build_controls v p s))"
  unfolding constructed_def p option.case
  using build_controls_fields(1-4) [OF r, of p] build_controls_elems(1) [OF r, of p]
    build_controls_slider [OF r, of p] build_controls_listener_set [OF r, of p]
  by simp

lemma createControls_completes:
  assumes "sound_video s v"
  shows "attach_completes v s (state_of (createControls v s))"
proof -
  have r: "\<not> add_listener_raises (elems s v)" "v < next_id s" and h: "html_video (elems s v)"
    using assms by (simp_all add: sound_video_def)
  obtain p where p: "findAttachmentParent v s = Some p"
    using findAttachmentParent_Some by blast
  show ?thesis
    unfolding attach_completes_def
    using h p build_controls_returns [OF r, of p] build_controls_fields(2) [OF r, of p]
      build_controls_constructed [OF r p]
    by (auto simp: createControls_paths)
qed


lemma keeps_refl [simp]: "keeps s s"
  by (simp add: keeps_def)

lemma keeps_trans: "keeps s s' \<Longrightarrow> keeps s' s'' \<Longrightarrow> keeps s s''"
  by (auto simp: keeps_def)

lemma stable_keeps: "stable s s' \<Longrightarrow> keeps s s'"
  by (simp add: stable_def keeps_def)

lemma keeps_sound: "keeps s s' \<Longrightarrow> sound_video s v \<Longrightarrow> sound_video s' v"
  by (auto simp: keeps_def sound_video_def)

lemma cleanupVideo_keeps: "keeps s (cleanupVideo v s)"
  by (simp add: keeps_def cleanupVideo_def run_cleanup_fields split: option.splits)

lemma fold_cleanupVideo_keeps: "keeps s (fold cleanupVideo vs s)"
proof (induction vs arbitrary: s)
  case Nil
  show ?case by simp
next
  case (Cons v vs)
  show ?case using keeps_trans [OF cleanupVideo_keeps Cons] by simp
qed

lemma removed_node_keeps: "keeps s (removed_node nd s)"
  using cleanupVideo_keeps fold_cleanupVideo_keeps
  by (cases nd) (simp_all add: removed_node_def)

lemma fold_removed_keeps: "keeps s (fold removed_node batch s)"
proof (induction batch arbitrary: s)
  case Nil
  show ?case by simp
next
  case (Cons nd batch)
  show ?case using keeps_trans [OF removed_node_keeps Cons] by simp
qed

lemma observer_keeps: "keeps s (observer ms s)"
proof (induction ms arbitrary: s)
  case Nil
  show ?case by simp
next
  case (Cons m ms)
  have "keeps s (fold removed_node (removedNodes m) (fold added_node (addedNodes m) s))"
    using keeps_trans [OF stable_keeps [OF fold_added_stable] fold_removed_keeps] .
  then show ?case using keeps_trans [OF _ Cons] by simp
qed

lemma querySelectorAll_video_keeps:
  assumes "keeps s s'" and "\<forall>n \<in> set (nodes t). n < next_id s"
  shows "querySelectorAll_video s' t = querySelectorAll_video s t"
  unfolding querySelectorAll_video_def
  using assms descendants_subset [of t]
  by (intro filter_cong) (auto simp: keeps_def)

lemma querySelectorAll_video_nodes: "set (querySelectorAll_video s t) \<subseteq> set (nodes t)"
  using descendants_subset [of t] by (auto simp: querySelectorAll_video_def)

lemma build_controls_cleanupMap:
  "cleanupMap (state_of (build_controls v p s)) = cleanupMap s \<or>
   cleanupMap (state_of (build_controls v p s)) = (cleanupMap s)(v \<mapsto>
      \<lparr>cl_video = v, cl_slider = Suc (next_id s), cl_container = next_id s\<rparr>)"
  by (simp add: build_controls_def Let_def del: fun_upd_apply)

lemma createControls_named:
  assumes "records_named s"
  shows "records_named (state_of (createControls v s))"
proof -
  have "records_named (state_of (build_controls v p s))" for p
    using build_controls_cleanupMap [of v p s] assms
    by (auto simp: records_named_def split: if_splits)
  then show ?thesis
    using assms by (auto simp: createControls_paths records_named_def split: option.splits)
qed

lemma forEach_named:
  "records_named s \<Longrightarrow> records_named (state_of (forEach_createControls vs s))"
proof (induction vs arbitrary: s)
  case Nil
  then show ?case by simp
next
  case (Cons v vs)
  have n: "records_named (state_of (createControls v s))"
    using Cons.prems by (rule createControls_named)
  show ?case
  proof (cases "createControls v s")
    case (Returned u s')
    then show ?thesis using n Cons.IH [of s'] by simp
  next
    case (Thrown s')
    then show ?thesis using n by simp
  qed
qed

lemma added_node_named: "records_named s \<Longrightarrow> records_named (added_node nd s)"
  using createControls_named forEach_named
  by (cases nd) (simp_all add: added_node_def)

lemma fold_added_named: "records_named s \<Longrightarrow> records_named (fold added_node batch s)"
  by (induction batch arbitrary: s) (simp_all add: added_node_named)

text \<open>A detach of another video leaves a video enhanced.\<close>

lemma cleanupVideo_other:
  assumes "records_named s" and "v \<in> enhanced s" and "w \<noteq> v"
  shows "records_named (cleanupVideo w s) \<and> v \<in> enhanced (cleanupVideo w s)"
  using assms
  by (auto simp: cleanupVideo_def run_cleanup_fields records_named_def split: option.splits)

lemma fold_cleanupVideo_other:
  "records_named s \<Longrightarrow> v \<in> enhanced s \<Longrightarrow> v \<notin> set ws \<Longrightarrow>
   records_named (fold cleanupVideo ws s) \<and> v \<in> enhanced (fold cleanupVideo ws s)"
proof (induction ws arbitrary: s)
  case Nil
  then show ?case by simp
next
  case (Cons w ws)
  have "records_named (cleanupVideo w s) \<and> v \<in> enhanced (cleanupVideo w s)"
    using Cons.prems by (intro cleanupVideo_other) auto
  then show ?case using Cons.IH [of "cleanupVideo w s"] Cons.prems(3) by simp
qed

lemma removed_node_other:
  assumes "records_named s" and "v \<in> enhanced s"
    and "case nd of ElementNode t \<Rightarrow> v \<notin> set (nodes t) | _ \<Rightarrow> True"
  shows "records_named (removed_node nd s) \<and> v \<in> enhanced (removed_node nd s)"
proof (cases nd)
  case (ElementNode t)
  then have out: "v \<notin> set (nodes t)" using assms(3) by simp
  have r: "root_id t \<noteq> v" using out root_in_nodes [of t] by auto
  have q: "v \<notin> set (querySelectorAll_video s t)"
    using out querySelectorAll_video_nodes [of s t] by auto
  show ?thesis
    using cleanupVideo_other [OF assms(1,2) r] fold_cleanupVideo_other [OF assms(1,2) q]
    by (simp add: removed_node_def ElementNode)
qed (simp_all add: removed_node_def assms)

lemma fold_removed_other:
  "records_named s \<Longrightarrow> v \<in> enhanced s \<Longrightarrow>
   \<forall>nd \<in> set batch. (case nd of ElementNode t \<Rightarrow> v \<notin> set (nodes t) | _ \<Rightarrow> True) \<Longrightarrow>
   records_named (fold removed_node batch s) \<and> v \<in> enhanced (fold removed_node batch s)"
proof (induction batch arbitrary: s)
  case Nil
  then show ?case by simp
next
  case (Cons nd batch)
  have "records_named (removed_node nd s) \<and> v \<in> enhanced (removed_node nd s)"
    using Cons.prems by (intro removed_node_other) auto
  then show ?case using Cons.IH [of "removed_node nd s"] Cons.prems(3) by simp
qed

lemma observer_other:
  "records_named s \<Longrightarrow> v \<in> enhanced s \<Longrightarrow> not_removed v ms \<Longrightarrow>
   records_named (observer ms s) \<and> v \<in> enhanced (observer ms s)"
proof (induction ms arbitrary: s)
  case Nil
  then show ?case by simp
next
  case (Cons m ms)
  let ?a = "fold added_node (addedNodes m) s"
  have a: "records_named ?a" "v \<in> enhanced ?a"
    using Cons.prems(1,2) fold_added_named stable_enhanced [OF fold_added_stable] by auto
  have r: "\<forall>nd \<in> set (removedNodes m).
             (case nd of ElementNode t \<Rightarrow> v \<notin> set (nodes t) | _ \<Rightarrow> True)"
    and rest: "not_removed v ms"
    using Cons.prems(3) by (simp_all add: not_removed_def)
  have "records_named (fold removed_node (removedNodes m) ?a) \<and>
        v \<in> enhanced (fold removed_node (removedNodes m) ?a)"
    using fold_removed_other [OF a r] .
  then show ?case using Cons.IH [OF _ _ rest] by simp
qed

lemma observer_named: "records_named s \<Longrightarrow> records_named (observer ms s)"
proof (induction ms arbitrary: s)
  case Nil
  then show ?case by simp
next
  case (Cons m ms)
  have "records_named (fold removed_node (removedNodes m) (fold added_node (addedNodes m) s))"
  proof -
    have n: "records_named (fold removed_node batch s')" if "records_named s'" for batch s'
      using that
    proof (induction batch arbitrary: s')
      case Nil
      then show ?case by simp
    next
      case (Cons nd batch)
      have c: "records_named (cleanupVideo w x)" if "records_named x" for w x
        using that
        by (auto simp: cleanupVideo_def run_cleanup_fields records_named_def split: option.splits)
      have f: "records_named (fold cleanupVideo ws x)" if "records_named x" for ws x
        using that by (induction ws arbitrary: x) (simp_all add: c)
      have "records_named (removed_node nd s')"
        using c f Cons.prems by (cases nd) (simp_all add: removed_node_def)
      then show ?case using Cons.IH by simp
    qed
    show ?thesis using n fold_added_named [OF Cons.prems] by simp
  qed
  then show ?case using Cons.IH by simp
qed

text \<open>Splitting a batch at one of its calls.\<close>

lemma observer_append: "observer (xs @ ys) s = observer ys (observer xs s)"
  by (induction xs arbitrary: s) simp_all

lemma observer_split:
  assumes "addedNodes m = apre @ nd # apost"
  shows "observer (mpre @ m # mpost) s =
     observer mpost (fold removed_node (removedNodes m)
       (fold added_node apost (added_node nd (fold added_node apre (observer mpre s)))))"
  by (simp add: observer_append assms)

lemma forEach_try_append:
  "forEach_try_createControls (xs @ ys) s =
     forEach_try_createControls ys (forEach_try_createControls xs s)"
  by (induction xs arbitrary: s) simp_all

lemma forEach_returns:
  "\<forall>v \<in> set vs. sound_video s v \<Longrightarrow>
   forEach_createControls vs s = Returned () (state_of (forEach_createControls vs s))"
proof (induction vs arbitrary: s)
  case Nil
  show ?case by simp
next
  case (Cons a vs)
  obtain s' where s': "createControls a s = Returned () s'"
    using createControls_sound [of s a] Cons.prems by auto
  have st: "stable s s'" using createControls_stable [of s a] s' by simp
  have "\<forall>v \<in> set vs. sound_video s' v"
    using Cons.prems stable_sound [OF st] by simp
  then show ?case using Cons.IH [of s'] s' by simp
qed

lemma forEach_append:
  "forEach_createControls xs s = Returned () s' \<Longrightarrow>
   forEach_createControls (xs @ ys) s = forEach_createControls ys s'"
  by (induction xs arbitrary: s) (auto split: outcome.splits)


text \<open>The initial pass at one of its videos.\<close>

lemma initial_pass_isolation:
  assumes split: "querySelectorAll_video s (body s) = pre @ v # post"
    and sound: "sound_video s v"
  shows "let s0 = forEach_try_createControls pre s;
             s1 = state_of (createControls v s0)
         in attach_completes v s0 s1 \<and>
            initial_pass s = forEach_try_createControls post s1 \<and>
            v \<in> enhanced (initial_pass s)"
proof -
  let ?s0 = "forEach_try_createControls pre s"
  let ?s1 = "state_of (createControls v ?s0)"
  have "sound_video ?s0 v"
    using stable_sound [OF forEach_try_stable sound] .
  then have a: "attach_completes v ?s0 ?s1"
    by (rule createControls_completes)
  have b: "initial_pass s = forEach_try_createControls post ?s1"
    by (simp add: initial_pass_def split forEach_try_append)
  have "v \<in> set (querySelectorAll_video s (body s))" by (simp add: split)
  then have c: "v \<in> enhanced (initial_pass s)"
    unfolding initial_pass_def using sound by (rule forEach_try_enhances)
  show ?thesis unfolding Let_def using a b c by (intro conjI)
qed

text \<open>The watcher at an inserted node: the state it has reached keeps the page's nodes.\<close>

lemma reached_keeps: "keeps s (fold added_node apre (observer mpre s))"
  using keeps_trans [OF observer_keeps stable_keeps [OF fold_added_stable]] .

lemma not_removed_rest:
  "not_removed v (m # mpost) \<Longrightarrow>
   not_removed v (\<lparr>addedNodes = apost, removedNodes = removedNodes m\<rparr> # mpost)"
  by (simp add: not_removed_def)

lemma observer_rest:
  "observer (\<lparr>addedNodes = apost, removedNodes = removedNodes m\<rparr> # mpost) s1 =
     observer mpost (fold removed_node (removedNodes m) (fold added_node apost s1))"
  by simp

lemma watcher_video_isolation:
  assumes ms: "ms = mpre @ m # mpost"
    and added: "addedNodes m = apre @ ElementNode t # apost"
    and old: "\<forall>n \<in> set (nodes t). n < next_id s"
    and tag: "tagName (elems s (root_id t)) = ''VIDEO''"
    and sound: "sound_video s (root_id t)"
  shows "let s0 = fold added_node apre (observer mpre s);
             s1 = state_of (createControls (root_id t) s0)
         in attach_completes (root_id t) s0 s1 \<and>
            observer ms s =
              observer mpost (fold removed_node (removedNodes m) (fold added_node apost s1)) \<and>
            (records_named s \<and> not_removed (root_id t) (m # mpost) \<longrightarrow>
               root_id t \<in> enhanced (observer ms s))"
proof -
  let ?s0 = "fold added_node apre (observer mpre s)"
  let ?s1 = "state_of (createControls (root_id t) ?s0)"
  have k: "keeps s ?s0" by (rule reached_keeps)
  have rt: "root_id t < next_id s" using old by simp
  have tag0: "tagName (elems ?s0 (root_id t)) = ''VIDEO''"
    using k rt tag by (simp add: keeps_def)
  have node: "added_node (ElementNode t) ?s0 = ?s1"
    using tag0 by (simp add: added_node_def)
  have c: "attach_completes (root_id t) ?s0 ?s1"
    using keeps_sound [OF k sound] by (rule createControls_completes)
  have eq: "observer ms s =
           observer mpost (fold removed_node (removedNodes m) (fold added_node apost ?s1))"
    unfolding ms using observer_split [OF added, of mpre mpost s] node by simp
  have e: "root_id t \<in> enhanced (observer ms s)"
    if named: "records_named s" and rest: "not_removed (root_id t) (m # mpost)"
  proof -
    have n1: "records_named ?s1"
      using named by (intro createControls_named fold_added_named observer_named)
    have e1: "root_id t \<in> enhanced ?s1"
      using c by (simp add: attach_completes_def)
    have "root_id t \<in> enhanced
            (observer (\<lparr>addedNodes = apost, removedNodes = removedNodes m\<rparr> # mpost) ?s1)"
      using observer_other [OF n1 e1 not_removed_rest [OF rest]] by simp
    then show ?thesis unfolding eq observer_rest .
  qed
  show ?thesis unfolding Let_def using c eq e by (intro conjI impI) simp_all
qed

lemma watcher_wrapper_isolation:
  assumes ms: "ms = mpre @ m # mpost"
    and added: "addedNodes m = apre @ ElementNode t # apost"
    and old: "\<forall>n \<in> set (nodes t). n < next_id s"
    and tag: "tagName (elems s (root_id t)) \<noteq> ''VIDEO''"
    and all: "\<forall>v \<in> set (querySelectorAll_video s t). sound_video s v"
    and vsplit: "querySelectorAll_video s t = vpre @ v # vpost"
  shows "let s0 = state_of (forEach_createControls vpre
                     (fold added_node apre (observer mpre s)));
             s1 = state_of (createControls v s0);
             s2 = state_of (forEach_createControls vpost s1)
         in forEach_createControls vpre (fold added_node apre (observer mpre s)) =
              Returned () s0 \<and>
            attach_completes v s0 s1 \<and>
            forEach_createControls vpost s1 = Returned () s2 \<and>
            observer ms s =
              observer mpost (fold removed_node (removedNodes m)
                (fold added_node apost s2)) \<and>
            (records_named s \<and> not_removed v (m # mpost) \<longrightarrow>
               v \<in> enhanced (observer ms s))"
proof -
  let ?s0 = "fold added_node apre (observer mpre s)"
  let ?s0' = "state_of (forEach_createControls vpre ?s0)"
  let ?s1 = "state_of (createControls v ?s0')"
  let ?s2 = "state_of (forEach_createControls vpost ?s1)"
  have k: "keeps s ?s0" by (rule reached_keeps)
  have rt: "root_id t < next_id s" using old by simp
  have tag0: "tagName (elems ?s0 (root_id t)) \<noteq> ''VIDEO''"
    using k rt tag by (simp add: keeps_def)
  have q: "querySelectorAll_video ?s0 t = vpre @ v # vpost"
    using querySelectorAll_video_keeps [OF k old] vsplit by simp
  have all0: "\<forall>w \<in> set (vpre @ v # vpost). sound_video ?s0 w"
    using all keeps_sound [OF k] vsplit by simp
  have pre: "forEach_createControls vpre ?s0 = Returned () ?s0'"
    using all0 by (intro forEach_returns) simp
  have st: "stable ?s0 ?s0'" by (rule forEach_stable)
  have all0': "\<forall>w \<in> set (v # vpost). sound_video ?s0' w"
    using all0 stable_sound [OF st] by simp
  have c: "attach_completes v ?s0' ?s1"
    using all0' by (intro createControls_completes) simp
  then have ret: "createControls v ?s0' = Returned () ?s1"
    by (simp add: attach_completes_def)
  have st1: "stable ?s0' ?s1" by (rule createControls_stable)
  have "\<forall>w \<in> set vpost. sound_video ?s1 w"
    using all0' stable_sound [OF st1] by simp
  then have post: "forEach_createControls vpost ?s1 = Returned () ?s2"
    by (rule forEach_returns)
  have "forEach_createControls (vpre @ v # vpost) ?s0 = forEach_createControls (v # vpost) ?s0'"
    using pre by (rule forEach_append)
  also have "\<dots> = forEach_createControls vpost ?s1"
    using ret by (cases "createControls v ?s0'") simp_all
  finally have node: "added_node (ElementNode t) ?s0 = ?s2"
    using tag0 q by (simp add: added_node_def)
  have eq: "observer ms s =
           observer mpost (fold removed_node (removedNodes m) (fold added_node apost ?s2))"
    unfolding ms using observer_split [OF added, of mpre mpost s] node by simp
  have e: "v \<in> enhanced (observer ms s)"
    if named: "records_named s" and rest: "not_removed v (m # mpost)"
  proof -
    have n2: "records_named ?s2"
      using named
      by (intro forEach_named createControls_named fold_added_named observer_named)
    have "v \<in> enhanced ?s1"
      using c by (simp add: attach_completes_def)
    then have e2: "v \<in> enhanced ?s2"
      using stable_enhanced [OF forEach_stable] by simp
    have "v \<in> enhanced
            (observer (\<lparr>addedNodes = apost, removedNodes = removedNodes m\<rparr> # mpost) ?s2)"
      using observer_other [OF n2 e2 not_removed_rest [OF rest]] by simp
    then show ?thesis unfolding eq observer_rest .
  qed
  show ?thesis unfolding Let_def using pre c post eq e by (intro conjI impI) simp_all
qed

text \<open>The example batches evaluated.\<close>

lemma constructed_fields:
  assumes "constructed v s s1"
  shows "cleanupMap s1 v =
           Some \<lparr>cl_video = v, cl_slider = Suc (next_id s), cl_container = next_id s\<rparr>"
    and "next_id s1 = next_id s + 2"
    and "elems s1 (next_id s) = container_element"
    and "set (new_listeners v (next_id s)) \<subseteq> set (listeners s1)"
  using assms by (auto simp: constructed_def split: option.splits)

lemma build_controls_thrown:
  assumes "add_listener_raises (elems s v)" and "v < next_id s"
  shows "body (state_of (build_controls v p s)) = body s"
    and "cleanupMap (state_of (build_controls v p s)) = cleanupMap s"
    and "next_id (state_of (build_controls v p s)) = next_id s + 2"
  using assms by (simp_all add: build_controls_def Let_def)

lemma siblings_thrown_fields:
  "createControls 2 siblings_page = Thrown siblings_thrown"
  "body siblings_thrown = Node 0 [Node 1 [Node 2 [], Node 3 []]]"
  "enhanced siblings_thrown = {}"
  "cleanupMap siblings_thrown = Map.empty"
  "next_id siblings_thrown = 6"
  "elems siblings_thrown 0 = elems siblings_page 0"
  "elems siblings_thrown (Suc 0) = elems siblings_page (Suc 0)"
  "elems siblings_thrown 2 = elems siblings_page 2"
  "elems siblings_thrown 3 = elems siblings_page 3"
proof -
  have f: "\<not> found_linked 2 siblings_page"
    by (simp add: found_linked_def siblings_parent siblings_elems demo_video_def
          createElement_def querySelector_class_def descendants_def)
  have c: "createControls 2 siblings_page = build_controls 2 1 siblings_page"
    using f siblings_videos(8)
    by (simp add: createControls_paths siblings_parent siblings_elems)
  have r: "add_listener_raises (elems siblings_page 2)" "2 < next_id siblings_page"
    by (simp_all add: siblings_elems)
  have st: "stable siblings_page siblings_thrown"
    unfolding siblings_thrown_def by (rule createControls_stable)
  show "createControls 2 siblings_page = Thrown siblings_thrown"
    unfolding siblings_thrown_def by (rule siblings_throws(1))
  show "body siblings_thrown = Node 0 [Node 1 [Node 2 [], Node 3 []]]"
    unfolding siblings_thrown_def c by (simp add: build_controls_thrown(1) [OF r] siblings_elems)
  show "enhanced siblings_thrown = {}"
    unfolding siblings_thrown_def by (rule siblings_throws(2))
  have m: "cleanupMap siblings_page = Map.empty"
    by (simp add: siblings_page_def)
  show "cleanupMap siblings_thrown = Map.empty"
    unfolding siblings_thrown_def c
    by (simp add: build_controls_thrown(2) [OF r] m)
  show "next_id siblings_thrown = 6"
    unfolding siblings_thrown_def c by (simp add: build_controls_thrown(3) [OF r] siblings_elems)
  show "elems siblings_thrown 0 = elems siblings_page 0"
    "elems siblings_thrown (Suc 0) = elems siblings_page (Suc 0)"
    "elems siblings_thrown 2 = elems siblings_page 2"
    "elems siblings_thrown 3 = elems siblings_page 3"
    using st by (simp_all add: stable_def siblings_elems)
qed

lemma siblings_thrown_fold: "state_of (createControls 2 siblings_page) = siblings_thrown"
  by (simp add: siblings_thrown_def)

lemma siblings_thrown_parent: "findAttachmentParent 3 siblings_thrown = Some 1"
  by (simp add: findAttachmentParent_def siblings_thrown_fields siblings_elems
        parentElement_def demo_video_def createElement_def)

lemma siblings_thrown_not_found: "\<not> found_linked 3 siblings_thrown"
  by (simp add: found_linked_def siblings_thrown_parent siblings_thrown_fields siblings_elems
        querySelector_class_def descendants_def demo_video_def createElement_def)

lemma siblings_reached:
  "added_node TextNode
     (removed_node (ElementNode (Node 3 []))
        (added_node (ElementNode (Node 2 [])) siblings_page)) = siblings_thrown"
proof -
  have a: "added_node (ElementNode (Node 2 [])) siblings_page = siblings_thrown"
    using siblings_videos(4) by (simp add: added_node_def siblings_thrown_def)
  have "tagName (elems siblings_thrown 3) = ''VIDEO''"
    using siblings_videos(5) by (simp add: siblings_thrown_fields)
  then have r: "removed_node (ElementNode (Node 3 [])) siblings_thrown = siblings_thrown"
    by (simp add: removed_node_def cleanupVideo_def siblings_thrown_fields)
  have x: "added_node TextNode siblings_thrown = siblings_thrown"
    by (simp add: added_node_def)
  show ?thesis by (simp only: a r x)
qed

lemma twins_videos:
  "querySelectorAll_video twins (Node 1 [Node 2 [], Node 3 []]) = [2, 3]"
  "tagName (elems twins 1) \<noteq> ''VIDEO''"
  "sound_video twins 2" "sound_video twins 3"
  "next_id twins = 4" "records_named twins"
  by (simp_all add: querySelectorAll_video_def descendants_def twins_def
        demo_video_def createElement_def sound_video_def records_named_def)

section \<open>Idempotence of attach\<close>




section \<open>Round trip of attach and detach\<close>

text \<open>
  Claim C2, as the code has it. For a genuine video that is not yet enhanced and does
  not raise, with no container taken as linked to it, in a well-formed page:
  \<open>createControls\<close> followed by \<open>cleanupVideo\<close> takes the container out of the
  document again, takes the video out of the Enhancement Set, drops the teardown record
  and removes the listeners, so that the state is the one before the attach but for the
  two discarded elements and the names of the next nodes; a further \<open>createControls\<close>
  then succeeds and leaves what it leaves on the state that never saw the first attach.
\<close>

theorem attach_detach_round_trip:
  "attachable s v \<and> well_formed s \<longrightarrow>
     (\<exists>s1 s2 s3.
        createControls v s = Returned () s1 \<and> cleanupVideo v s1 = s2 \<and>
        (attachment_in_document s v \<longrightarrow> next_id s \<in> set (nodes (body s1))) \<and>
        next_id s \<notin> set (nodes (body s2)) \<and>
        v \<notin> enhanced s2 \<and> cleanupMap s2 v = None \<and>
        agree_off {next_id s, Suc (next_id s)} s2 (s\<lparr>next_id := next_id s + 2\<rparr>) \<and>
        createControls v s2 = Returned () s3 \<and>
        agree_off {next_id s, Suc (next_id s)} s3
          (state_of (createControls v (s\<lparr>next_id := next_id s + 2\<rparr>))) \<and>
        v \<in> enhanced s3 \<and> cleanupMap s3 v \<noteq> None)"
proof
  assume h: "attachable s v \<and> well_formed s"
  then have a: "attachable s v" and w: "well_formed s" by simp_all
  obtain p where p: "findAttachmentParent v s = Some p"
    using findAttachmentParent_Some by blast
  let ?c = "next_id s"
  let ?X = "{?c, Suc ?c}"
  let ?s0 = "s\<lparr>next_id := next_id s + 2\<rparr>"
  let ?s1 = "state_of (createControls v s)"
  let ?s2 = "cleanupVideo v ?s1"
  let ?s3 = "state_of (createControls v ?s2)"
  have r: "\<not> add_listener_raises (elems s v)" "v < next_id s" and ne: "v \<notin> enhanced s"
    using a by (simp_all add: attachable_def)
  have fresh: "\<forall>l \<in> set (listeners s). closure_of (fst (snd (snd l))) < next_id s"
    and old: "\<forall>n \<in> set (nodes (body s)). n < next_id s"
    and dom: "dom (cleanupMap s) \<subseteq> enhanced s"
    using w by (auto simp: well_formed_def)
  have c1: "createControls v s = Returned () ?s1"
    by (simp add: createControls_attachable [OF a p])
  have g: "agree_off ?X ?s2 ?s0" by (rule detach_restores [OF a w])
  then have b2: "body ?s2 = body s" and e2: "enhanced ?s2 = enhanced s"
    and m2: "cleanupMap ?s2 = cleanupMap s" and l2: "listeners ?s2 = listeners s"
    and n2: "next_id ?s2 = next_id s + 2"
    and el2: "\<And>n. n \<notin> ?X \<Longrightarrow> elems ?s2 n = elems s n"
    by (simp_all add: agree_off_def)
  have indoc: "?c \<in> set (nodes (body ?s1))" if "attachment_in_document s v"
  proof -
    have d: "p \<in> set (nodes (body s))"
      using that p by (simp add: attachment_in_document_def)
    show ?thesis
      using attach_containers(2) [OF a w p d] by (simp add: overlay_containers_def)
  qed
  have gone: "?c \<notin> set (nodes (body ?s2))" using old b2 by auto
  have ne2: "v \<notin> enhanced ?s2" using ne e2 by simp
  have none2: "cleanupMap ?s2 v = None" using dom ne m2 by auto
  have vX: "v \<notin> ?X" using r(2) by simp
  have X: "?X \<inter> set (nodes (body ?s2)) = {}" using old b2 by auto
  have a0: "attachable ?s0 v" and p0: "findAttachmentParent v ?s0 = Some p"
    using attachable_advance [OF a] p by simp_all
  have a2: "attachable ?s2 v" and p2: "findAttachmentParent v ?s2 = Some p"
    using attachable_agree [OF g vX X] a0 p0 by simp_all
  have r2: "\<not> add_listener_raises (elems ?s2 v)" "v < next_id ?s2"
    using a2 by (simp_all add: attachable_def)
  have fresh2: "\<forall>l \<in> set (listeners ?s2). closure_of (fst (snd (snd l))) < next_id ?s2"
    using fresh l2 n2 by auto
  have c3: "createControls v ?s2 = Returned () ?s3"
    by (simp add: createControls_attachable [OF a2 p2])
  have c0: "createControls v ?s0 = Returned () (state_of (build_controls v p ?s0))"
    by (rule createControls_attachable [OF a0 p0])
  have c3': "createControls v ?s2 = Returned () (state_of (build_controls v p ?s2))"
    by (rule createControls_attachable [OF a2 p2])
  have g3: "agree_off ?X ?s3 (state_of (createControls v ?s0))"
    unfolding c0 c3' state_of.simps by (rule build_controls_agree [OF g vX r2 fresh2])
  have e3: "v \<in> enhanced ?s3"
    by (simp add: createControls_attachable [OF a2 p2] build_controls_fields(2) [OF r2])
  have m3: "cleanupMap ?s3 v \<noteq> None"
    by (simp add: createControls_attachable [OF a2 p2] build_controls_fields(3) [OF r2])
  show "\<exists>s1 s2 s3.
        createControls v s = Returned () s1 \<and> cleanupVideo v s1 = s2 \<and>
        (attachment_in_document s v \<longrightarrow> next_id s \<in> set (nodes (body s1))) \<and>
        next_id s \<notin> set (nodes (body s2)) \<and>
        v \<notin> enhanced s2 \<and> cleanupMap s2 v = None \<and>
        agree_off {next_id s, Suc (next_id s)} s2 (s\<lparr>next_id := next_id s + 2\<rparr>) \<and>
        createControls v s2 = Returned () s3 \<and>
        agree_off {next_id s, Suc (next_id s)} s3
          (state_of (createControls v (s\<lparr>next_id := next_id s + 2\<rparr>))) \<and>
        v \<in> enhanced s3 \<and> cleanupMap s3 v \<noteq> None"
    using c1 indoc gone ne2 none2 g c3 g3 e3 m3 by blast
qed

theorem attach_detach_round_trip_witness:
  "attachable demo 2 \<and> well_formed demo \<and> attachment_in_document demo 2 \<and>
   (\<exists>s1 s2 s3.
        createControls 2 demo = Returned () s1 \<and> cleanupVideo 2 s1 = s2 \<and>
        3 \<in> set (nodes (body s1)) \<and> 3 \<notin> set (nodes (body s2)) \<and>
        2 \<notin> enhanced s2 \<and> cleanupMap s2 2 = None \<and>
        agree_off {3, 4} s2 (demo\<lparr>next_id := 5\<rparr>) \<and>
        createControls 2 s2 = Returned () s3 \<and>
        agree_off {3, 4} s3 (state_of (createControls 2 (demo\<lparr>next_id := 5\<rparr>))) \<and>
        2 \<in> enhanced s3 \<and> cleanupMap s3 2 \<noteq> None)"
  using attach_detach_round_trip [of demo 2] demo_attachable demo_well_formed demo_in_document
  by (simp add: demo_plain)

text \<open>
  The claim as stated, for every video, fails where the secondary check takes a container
  as linked: in \<open>linked_page\<close> attach puts video 2 into the Enhancement Set and records
  no teardown action, so detach does nothing: the video stays enhanced, container 3 stays
  in the document, and a further attach is a no-op.
\<close>

theorem linked_video_round_trip_counterexample:
  "createControls 2 linked_page = Returned () (linked_page\<lparr>enhanced := {2}\<rparr>) \<and>
   cleanupVideo 2 (linked_page\<lparr>enhanced := {2}\<rparr>) = linked_page\<lparr>enhanced := {2}\<rparr> \<and>
   2 \<in> enhanced (cleanupVideo 2 (state_of (createControls 2 linked_page))) \<and>
   overlay_containers (cleanupVideo 2 (state_of (createControls 2 linked_page))) = [3] \<and>
   createControls 2 (cleanupVideo 2 (state_of (createControls 2 linked_page))) =
     Returned () (linked_page\<lparr>enhanced := {2}\<rparr>)"
proof -
  have v: "html_video (elems linked_page 2)" "enhanced linked_page = {}"
    "cleanupMap linked_page 2 = None"
    by (simp_all add: linked_page_def demo_video_def)
  have c: "createControls 2 linked_page = Returned () (linked_page\<lparr>enhanced := {2}\<rparr>)"
    by (simp add: createControls_paths linked_page_found v)
  have d: "cleanupVideo 2 (linked_page\<lparr>enhanced := {2}\<rparr>) = linked_page\<lparr>enhanced := {2}\<rparr>"
    by (simp add: cleanupVideo_def v)
  have o: "overlay_containers (linked_page\<lparr>enhanced := {2}\<rparr>) = [3]"
    by (simp add: overlay_containers_def linked_page_def demo_video_def createElement_def
          container_element_def)
  have c2: "createControls 2 (linked_page\<lparr>enhanced := {2}\<rparr>) =
              Returned () (linked_page\<lparr>enhanced := {2}\<rparr>)"
    by (simp add: createControls_def)
  show ?thesis by (simp add: c d o c2)
qed

section \<open>The secondary duplicate check\<close>

text \<open>
  Claim C4 says that a video is taken as already enhanced only when the container found
  under its attachment point stores the video's correlation id, and that attach
  constructs a container otherwise. The code compares the two dataset entries with
  \<open>===\<close>, and two entries that were never set are both \<open>undefined\<close>. In \<open>twins\<close>,
  after video 2 was attached (container 4, which stores no id), attaching video 3 (which
  has no id) finds container 4, takes it as linked, puts video 3 into the Enhancement
  Set and constructs nothing: the document still has the one container, video 3 has no
  teardown record, and detach leaves it enhanced.
\<close>

theorem unlinked_sibling_taken_as_linked:
  "createControls 2 twins = Returned () twins_first \<and>
   overlay_containers twins_first = [4] \<and>
   data_forVideo (elems twins_first 4) = None \<and>
   data_customId (elems twins_first 3) = None \<and>
   3 \<notin> enhanced twins_first \<and>
   createControls 3 twins_first = Returned () (twins_first\<lparr>enhanced := {2, 3}\<rparr>) \<and>
   overlay_containers (twins_first\<lparr>enhanced := {2, 3}\<rparr>) = [4] \<and>
   cleanupMap (twins_first\<lparr>enhanced := {2, 3}\<rparr>) 3 = None \<and>
   cleanupVideo 3 (twins_first\<lparr>enhanced := {2, 3}\<rparr>) = twins_first\<lparr>enhanced := {2, 3}\<rparr>"
proof -
  have o: "overlay_containers twins_first = [4]"
    by (simp add: overlay_containers_def twins_first_fields(2) twins_first_elems twins_elems
          demo_video_def createElement_def container_element_def)
  have o': "overlay_containers (twins_first\<lparr>enhanced := {2, 3}\<rparr>) = [4]"
    using o by (simp add: overlay_containers_def)
  have d: "data_forVideo (elems twins_first 4) = None" "data_customId (elems twins_first 3) = None"
    "html_video (elems twins_first 3)"
    by (simp_all add: twins_first_elems twins_elems container_element_def createElement_def
          demo_video_def)
  have c: "createControls 3 twins_first = Returned () (twins_first\<lparr>enhanced := {2, 3}\<rparr>)"
    by (simp add: createControls_paths twins_first_found d(3) twins_first_fields(3) insert_commute)
  have m: "cleanupMap (twins_first\<lparr>enhanced := {2, 3}\<rparr>) 3 = None"
    by (simp add: twins_first_fields)
  have u: "cleanupVideo 3 (twins_first\<lparr>enhanced := {2, 3}\<rparr>) = twins_first\<lparr>enhanced := {2, 3}\<rparr>"
    using m by (simp add: cleanupVideo_def)
  show ?thesis
    using twins_first_fields(1,3) o o' d c m u by simp
qed

section \<open>Debug interface\<close>

text \<open>
  Claim C5 says that \<open>enhancedCount\<close> returns the number of teardown records and that
  \<open>cleanupAll\<close> runs them all. The WeakMap has no \<open>forEach\<close>, so the guarded calls do
  nothing: after video 2 of \<open>demo\<close> was attached, with one teardown record held,
  \<open>enhancedCount\<close> is 0 and \<open>cleanupAll\<close> leaves the state as it is, the video still
  enhanced.
\<close>

theorem enhancedCount_ignores_records:
  "createControls 2 demo = Returned () demo_first \<and>
   2 \<in> enhanced demo_first \<and>
   cleanupMap demo_first 2 = Some \<lparr>cl_video = 2, cl_slider = 4, cl_container = 3\<rparr> \<and>
   enhancedCount demo_first = 0 \<and>
   cleanupAll demo_first = demo_first \<and>
   2 \<in> enhanced (cleanupAll demo_first)"
proof -
  have r: "\<not> add_listener_raises (elems demo 2)" "2 < next_id demo"
    using demo_attachable by (simp_all add: attachable_def)
  note c = createControls_attachable [OF demo_attachable demo_parent]
  have e: "2 \<in> enhanced demo_first"
    by (simp add: demo_first_def c build_controls_fields(2) [OF r])
  have m: "cleanupMap demo_first 2 = Some \<lparr>cl_video = 2, cl_slider = 4, cl_container = 3\<rparr>"
    by (simp add: demo_first_def c build_controls_fields(3) [OF r] demo_plain)
  show ?thesis
    using e m by (simp add: demo_first_def c enhancedCount_def cleanupAll_def WeakMap_forEach_def)
qed

section \<open>Fault isolation in batches\<close>




end
